theory Spec2Isabelle
  imports Complex_Main
begin

section \<open>Numbers and errors\<close>

text \<open>
  The program computes with numpy float64 arrays. A float64 value is modelled as an exact
  real number or one of the three special values of IEEE arithmetic: rounding and
  overflow are not part of the model, the special values are (they are what
  \<^verbatim>\<open>np.seterr(invalid='ignore', divide='ignore')\<close> on line 7 of
  \<^verbatim>\<open>finite_elements.py\<close> lets through silently). Signed zeros are not modelled.
\<close>

datatype npfloat = Fin real | NaN | PInf | NInf

text \<open>The exceptions that the modelled code can raise, all of them from numpy or Python.\<close>

datatype error = IndexError | KeyError | ValueError | AxisError | LinAlgError

fun np_add :: "npfloat \<Rightarrow> npfloat \<Rightarrow> npfloat" where
  "np_add (Fin a) (Fin b) = Fin (a + b)"
| "np_add NaN _ = NaN"
| "np_add _ NaN = NaN"
| "np_add PInf NInf = NaN"
| "np_add NInf PInf = NaN"
| "np_add PInf _ = PInf"
| "np_add _ PInf = PInf"
| "np_add NInf _ = NInf"
| "np_add _ NInf = NInf"

definition signed_inf :: "real \<Rightarrow> npfloat" where
  \<comment> \<open>the product of a finite number with plus infinity\<close>
  "signed_inf a = (if a = 0 then NaN else if 0 < a then PInf else NInf)"

fun np_multiply :: "npfloat \<Rightarrow> npfloat \<Rightarrow> npfloat" where
  "np_multiply (Fin a) (Fin b) = Fin (a * b)"
| "np_multiply NaN _ = NaN"
| "np_multiply _ NaN = NaN"
| "np_multiply (Fin a) PInf = signed_inf a"
| "np_multiply (Fin a) NInf = signed_inf (- a)"
| "np_multiply PInf (Fin b) = signed_inf b"
| "np_multiply NInf (Fin b) = signed_inf (- b)"
| "np_multiply PInf PInf = PInf"
| "np_multiply PInf NInf = NInf"
| "np_multiply NInf PInf = NInf"
| "np_multiply NInf NInf = PInf"

text \<open>
  \<^verbatim>\<open>x ** e\<close> for a float \<open>x\<close> and a non-negative Python int \<open>e\<close>: the power of
  exponent 0 is 1 for every base, NaN and the infinities included.
\<close>

fun np_power :: "npfloat \<Rightarrow> nat \<Rightarrow> npfloat" where
  "np_power x 0 = Fin 1"
| "np_power x (Suc n) = np_multiply x (np_power x n)"

text \<open>
  \<^verbatim>\<open>np.array(ints) / d\<close>: true division of an integer by a Python int. With the
  warnings silenced, \<open>0 / 0\<close> is NaN and \<open>k / 0\<close> an infinity; nothing is raised.
\<close>

definition np_true_divide :: "int \<Rightarrow> int \<Rightarrow> npfloat" where
  "np_true_divide k d =
     (if d \<noteq> 0 then Fin (real_of_int k / real_of_int d)
      else if k = 0 then NaN else if 0 < k then PInf else NInf)"

definition np_of_int :: "int \<Rightarrow> npfloat" where
  "np_of_int k = Fin (real_of_int k)"

definition is_finite :: "npfloat \<Rightarrow> bool" where
  "is_finite x = (case x of Fin _ \<Rightarrow> True | _ \<Rightarrow> False)"

section \<open>The reference cell\<close>

text \<open>
  \<^verbatim>\<open>reference_elements.py\<close> is not part of the sources at hand: what the code uses of
  a cell is taken as the fields of a record. \<open>entity_counts\<close> is the list indexed by
  the entity dimension, \<open>point_in_entity\<close> the containment test.
\<close>

record reference_cell =
  cell_dim :: nat
  entity_counts :: "nat list"
  point_in_entity :: "npfloat list \<Rightarrow> nat \<times> nat \<Rightarrow> bool"

section \<open>The Lagrange nodes\<close>

text \<open>
  \<^verbatim>\<open>itertools.product(xs, repeat=n)\<close>: all tuples of length \<open>n\<close> over \<open>xs\<close>, the
  last component varying fastest.
\<close>

fun product_repeat :: "'a list \<Rightarrow> nat \<Rightarrow> 'a list list" where
  "product_repeat xs 0 = [[]]"
| "product_repeat xs (Suc n) = concat (map (\<lambda>x. map ((#) x) (product_repeat xs n)) xs)"

text \<open>
  \<^verbatim>\<open>
  equi_lag_points = []
  for i in product(range(degree + 1), repeat=cell.dim):
      if sum(i) <= degree:
          equi_lag_points.append(np.array(i[::-1]) / degree)
  return np.array(equi_lag_points)
  \<close>
  \<open>[0..degree]\<close> is \<^verbatim>\<open>range(degree + 1)\<close>, empty when \<open>degree < 0\<close>.
\<close>

definition lagrange_points :: "'a reference_cell_scheme \<Rightarrow> int \<Rightarrow> npfloat list list" where
  "lagrange_points cell degree =
     map (\<lambda>i. map (\<lambda>k. np_true_divide k degree) (rev i))
       (filter (\<lambda>i. sum_list i \<le> degree) (product_repeat [0..degree] (cell_dim cell)))"

definition expected_count :: "nat \<Rightarrow> int \<Rightarrow> int" where
  "expected_count d degree =
     (if d = 1 then degree + 1 else (degree + 1) * (degree + 2) div 2)"


section \<open>The generalised Vandermonde matrix\<close>

text \<open>
  A rank 2 array is the list of its rows, a rank 3 array the list of its rank 2 slices
  along the first axis, and so on. A list of points stands for an array of shape
  \<open>(n, m)\<close>; the number of columns of an array without rows is not recorded, and
  \<open>[]\<close> stands for an array of shape \<open>(0, m)\<close> with \<open>m \<ge> 1\<close>.
\<close>

datatype ndarray =
    Rank2 "npfloat list list"
  | Rank3 "npfloat list list list"
  | Rank4 "npfloat list list list list"

text \<open>
  \<^verbatim>\<open>
  def column(i, idx, j):
      exp_1 = max([(i - j) - grad * (1 - idx), 0])
      exp_2 = max([j - grad * idx, 0])
      return np.multiply(points[:, None, 0] ** exp_1, points[:, None, -1] ** exp_2)
  \<close>
  The result has one entry for each point. \<open>hd p\<close> is \<^verbatim>\<open>p[0]\<close> and \<open>last p\<close> is
  \<^verbatim>\<open>p[-1]\<close>; \<open>vandermonde_values\<close> and \<open>vandermonde_grad\<close> raise IndexError before
  they read a point without coordinates.
\<close>

definition column :: "npfloat list list \<Rightarrow> bool \<Rightarrow> int \<Rightarrow> int \<Rightarrow> int \<Rightarrow> npfloat list" where
  "column points grad i idx j =
     (let g = (if grad then 1 else 0);
          exp_1 = nat (max ((i - j) - g * (1 - idx)) 0);
          exp_2 = nat (max (j - g * idx) 0)
      in map (\<lambda>p. np_multiply (np_power (hd p) exp_1) (np_power (last p) exp_2)) points)"

text \<open>
  The two nested loops \<^verbatim>\<open>for i in range(degree + 1)\<close>,
  \<^verbatim>\<open>for j in range((cell.dim - 1) * i + 1)\<close>, in the order they run.
\<close>

definition basis_indices :: "nat \<Rightarrow> int \<Rightarrow> (int \<times> int) list" where
  "basis_indices d degree =
     concat (map (\<lambda>i. map (\<lambda>j. (i, j)) [0..(int d - 1) * i]) [0..degree])"

text \<open>
  \<^verbatim>\<open>np.hstack\<close> of a list of arrays of shape \<open>(n, 1)\<close> and \<^verbatim>\<open>np.swapaxes(_, 0, 1)\<close>
  of a list of arrays with \<open>n\<close> rows: entry \<open>p\<close> of the result collects entry \<open>p\<close> of
  every member of the list.
\<close>

definition np_hstack :: "nat \<Rightarrow> 'a list list \<Rightarrow> 'a list list" where
  "np_hstack n cols = map (\<lambda>p. map (\<lambda>c. c ! p) cols) [0..<n]"

definition np_swapaxes :: "nat \<Rightarrow> 'a list list \<Rightarrow> 'a list list" where
  "np_swapaxes n arrays = map (\<lambda>p. map (\<lambda>a. a ! p) arrays) [0..<n]"

text \<open>
  The branch \<^verbatim>\<open>grad=False\<close>. With \<open>degree < 0\<close> no column is built and
  \<^verbatim>\<open>np.hstack([])\<close> raises ValueError.
\<close>

definition vandermonde_values ::
  "'a reference_cell_scheme \<Rightarrow> int \<Rightarrow> npfloat list list \<Rightarrow> error + npfloat list list" where
  "vandermonde_values cell degree points =
     (if degree < 0 then Inl ValueError
      else if [] \<in> set points then Inl IndexError
      else Inr (np_hstack (length points)
                 (map (\<lambda>(i, j). column points False i 0 j) (basis_indices (cell_dim cell) degree))))"

text \<open>
  The branch \<^verbatim>\<open>grad=True\<close>:
  \<^verbatim>\<open>
  for i in range(degree + 1):
      matrix += [np.hstack([((i - j) * (1 - k) + j * k) * column(i, k, j) for k in range(cell.dim)])
                 for j in range((cell.dim - 1) * i + 1)]
  return np.swapaxes(matrix, 0, 1)
  \<close>
  With \<open>degree < 0\<close> the list is empty and \<^verbatim>\<open>np.swapaxes\<close> raises AxisError; on a
  cell of dimension 0 the inner \<^verbatim>\<open>np.hstack([])\<close> raises ValueError.
\<close>

definition vandermonde_grad ::
  "'a reference_cell_scheme \<Rightarrow> int \<Rightarrow> npfloat list list \<Rightarrow> error + npfloat list list list" where
  "vandermonde_grad cell degree points =
     (if degree < 0 then Inl AxisError
      else if cell_dim cell = 0 then Inl ValueError
      else if [] \<in> set points then Inl IndexError
      else Inr (np_swapaxes (length points)
                 (map (\<lambda>(i, j). np_hstack (length points)
                         (map (\<lambda>k. map (np_multiply (np_of_int ((i - j) * (1 - k) + j * k)))
                                      (column points True i k j))
                              [0..int (cell_dim cell) - 1]))
                      (basis_indices (cell_dim cell) degree))))"


section \<open>Matrix inversion\<close>

text \<open>
  \<^verbatim>\<open>np.linalg.inv\<close> is numpy's. In exact arithmetic the inverse of a matrix does not
  depend on how it is computed; the model is a Gauss-Jordan elimination on the rows of
  the matrix, each paired with the row of the identity matrix it started from. It
  fails when a column has no non-zero entry left to pivot on.
\<close>

type_synonym aug_row = "real list \<times> real list"

definition row_scale :: "real \<Rightarrow> aug_row \<Rightarrow> aug_row" where
  "row_scale k r = (map ((*) k) (fst r), map ((*) k) (snd r))"

definition row_sub :: "real \<Rightarrow> aug_row \<Rightarrow> aug_row \<Rightarrow> aug_row" where
  \<comment> \<open>\<open>r - f * p\<close>\<close>
  "row_sub f p r =
     (map2 (\<lambda>x y. x - f * y) (fst r) (fst p), map2 (\<lambda>x y. x - f * y) (snd r) (snd p))"

definition eliminate :: "nat \<Rightarrow> aug_row \<Rightarrow> aug_row \<Rightarrow> aug_row" where
  "eliminate c p r = row_sub (fst r ! c) p r"

fun find_pivot :: "nat \<Rightarrow> aug_row list \<Rightarrow> (aug_row \<times> aug_row list) option" where
  "find_pivot c [] = None"
| "find_pivot c (r # rs) =
     (if fst r ! c \<noteq> 0 then Some (r, rs)
      else (case find_pivot c rs of None \<Rightarrow> None | Some (p, rest) \<Rightarrow> Some (p, r # rest)))"

fun gauss_jordan :: "nat list \<Rightarrow> aug_row list \<Rightarrow> aug_row list \<Rightarrow> aug_row list option" where
  "gauss_jordan [] solved pending = Some solved"
| "gauss_jordan (c # cs) solved pending =
     (case find_pivot c pending of
        None \<Rightarrow> None
      | Some (p, rest) \<Rightarrow>
          (let q = row_scale (1 / fst p ! c) p
           in gauss_jordan cs (map (eliminate c q) solved @ [q]) (map (eliminate c q) rest)))"

definition unit_row :: "nat \<Rightarrow> nat \<Rightarrow> real list" where
  "unit_row n k = map (\<lambda>j. if j = k then 1 else 0) [0..<n]"

definition real_inverse :: "real list list \<Rightarrow> real list list option" where
  "real_inverse M =
     map_option (map snd)
       (gauss_jordan [0..<length M] [] (zip M (map (unit_row (length M)) [0..<length M])))"

fun finite_value :: "npfloat \<Rightarrow> real option" where
  "finite_value (Fin r) = Some r"
| "finite_value _ = None"

definition finite_matrix :: "npfloat list list \<Rightarrow> real list list option" where
  "finite_matrix A = those (map (\<lambda>r. those (map finite_value r)) A)"

text \<open>
  \<open>np_linalg_inv ncols A\<close> inverts the array of shape \<open>(length A, ncols)\<close>. numpy raises
  LinAlgError for an array that is not square and for a singular matrix. For a matrix
  with a NaN or an infinite entry it raises nothing and returns an array with NaN
  entries; which entries LAPACK leaves finite there is not modelled, the model has NaN
  everywhere.
\<close>

definition np_linalg_inv :: "nat \<Rightarrow> npfloat list list \<Rightarrow> error + npfloat list list" where
  "np_linalg_inv ncols A =
     (let n = length A in
      if n \<noteq> ncols \<or> (\<exists>r\<in>set A. length r \<noteq> n) then Inl LinAlgError
      else (case finite_matrix A of
              None \<Rightarrow> Inr (replicate n (replicate n NaN))
            | Some M \<Rightarrow>
                (case real_inverse M of
                   None \<Rightarrow> Inl LinAlgError
                 | Some C \<Rightarrow> Inr (map (map Fin) C))))"


section \<open>The scalar finite element\<close>

text \<open>
  \<^verbatim>\<open>entity_nodes[d][i]\<close> is a dictionary of dictionaries of lists of node numbers: an
  association list of association lists, looked up with \<open>map_of\<close>.
\<close>

type_synonym entity_map = "(nat \<times> (nat \<times> nat list) list) list"

record FiniteElement =
  cell :: reference_cell
  degree :: int
  nodes :: "npfloat list list"
  entity_nodes :: "entity_map option"
  nodes_per_entity :: "nat list option"
  basis_coefs :: "npfloat list list"
  node_count :: nat

text \<open>
  \<^verbatim>\<open>[len(entity_nodes[d][0]) for d in range(cell.dim + 1)]\<close>; a missing key raises
  KeyError.
\<close>

definition count_nodes_per_entity :: "nat \<Rightarrow> entity_map \<Rightarrow> error + nat list" where
  "count_nodes_per_entity d en =
     (case those (map (\<lambda>k. Option.bind (map_of en k) (\<lambda>m. map_option length (map_of m 0)))
                      [0..<Suc d]) of
        None \<Rightarrow> Inl KeyError
      | Some ns \<Rightarrow> Inr ns)"

text \<open>
  \<^verbatim>\<open>
  if entity_nodes:
      self.nodes_per_entity = np.array([len(entity_nodes[d][0]) for d in range(cell.dim + 1)])
  V = vandermonde_matrix(cell, degree, nodes)
  self.basis_coefs = np.linalg.inv(V)
  self.node_count = nodes.shape[0]
  \<close>
  \<open>None\<close> and the empty dictionary are false in Python; the attribute
  \<open>nodes_per_entity\<close> is then not set. The array \<open>V\<close> has one row for each node and
  one column for each pair of \<open>basis_indices\<close>.
\<close>

definition FiniteElement_init ::
  "reference_cell \<Rightarrow> int \<Rightarrow> npfloat list list \<Rightarrow> entity_map option \<Rightarrow> error + FiniteElement" where
  "FiniteElement_init c deg ns en =
     (case (if en = None \<or> en = Some [] then Inr None
            else map_sum id Some (count_nodes_per_entity (cell_dim c) (the en))) of
        Inl e \<Rightarrow> Inl e
      | Inr npe \<Rightarrow>
          (case vandermonde_values c deg ns of
             Inl e \<Rightarrow> Inl e
           | Inr V \<Rightarrow>
               (case np_linalg_inv (length (basis_indices (cell_dim c) deg)) V of
                  Inl e \<Rightarrow> Inl e
                | Inr C \<Rightarrow>
                    Inr \<lparr>cell = c, degree = deg, nodes = ns, entity_nodes = en,
                         nodes_per_entity = npe, basis_coefs = C, node_count = length ns\<rparr>)))"

fun np_sum :: "npfloat list \<Rightarrow> npfloat" where
  "np_sum [] = Fin 0"
| "np_sum (x # xs) = np_add x (np_sum xs)"

definition ncols :: "'a list list \<Rightarrow> nat" where
  \<comment> \<open>\<^verbatim>\<open>shape[1]\<close> of an array that has a row\<close>
  "ncols A = (case A of [] \<Rightarrow> 0 | r # _ \<Rightarrow> length r)"

text \<open>
  \<^verbatim>\<open>A @ B\<close> for rank 2 arrays: numpy raises ValueError unless every row of \<open>A\<close> is as
  long as \<open>B\<close> has rows.
\<close>

definition np_matmul :: "npfloat list list \<Rightarrow> npfloat list list \<Rightarrow> error + npfloat list list" where
  "np_matmul A B =
     (if \<exists>r\<in>set A. length r \<noteq> length B then Inl ValueError
      else Inr (map (\<lambda>r. map (\<lambda>l. np_sum (map (\<lambda>j. np_multiply (r ! j) (B ! j ! l)) [0..<length B]))
                             [0..<ncols B]) A))"


text \<open>
  \<^verbatim>\<open>np.einsum("ijk,jl->ilk", T, B)\<close>: entry \<open>[i][l][k]\<close> is the sum over \<open>j\<close> of
  \<open>T[i][j][k] * B[j][l]\<close>; the axis \<open>k\<close> has the length \<open>d\<close>.
\<close>

definition np_einsum_ijk_jl ::
  "nat \<Rightarrow> npfloat list list list \<Rightarrow> npfloat list list \<Rightarrow> error + npfloat list list list" where
  "np_einsum_ijk_jl d T B =
     (if \<exists>t\<in>set T. length t \<noteq> length B then Inl ValueError
      else Inr (map (\<lambda>t. map (\<lambda>l. map (\<lambda>k. np_sum (map (\<lambda>j. np_multiply (t ! j ! k) (B ! j ! l))
                                                        [0..<length B]))
                                        [0..<d])
                             [0..<ncols B]) T))"

text \<open>
  \<^verbatim>\<open>
  if grad:
      T = vandermonde_matrix(self.cell, self.degree, points, grad)
      return np.einsum("ijk,jl->ilk", T, self.basis_coefs)
  V = vandermonde_matrix(self.cell, self.degree, points)
  return V @ self.basis_coefs
  \<close>
\<close>

definition tabulate_values :: "FiniteElement \<Rightarrow> npfloat list list \<Rightarrow> error + npfloat list list" where
  "tabulate_values el points =
     (case vandermonde_values (cell el) (degree el) points of
        Inl e \<Rightarrow> Inl e
      | Inr V \<Rightarrow> np_matmul V (basis_coefs el))"

definition tabulate_grad ::
  "FiniteElement \<Rightarrow> npfloat list list \<Rightarrow> error + npfloat list list list" where
  "tabulate_grad el points =
     (case vandermonde_grad (cell el) (degree el) points of
        Inl e \<Rightarrow> Inl e
      | Inr T \<Rightarrow> np_einsum_ijk_jl (cell_dim (cell el)) T (basis_coefs el))"

definition tabulate :: "FiniteElement \<Rightarrow> npfloat list list \<Rightarrow> bool \<Rightarrow> error + ndarray" where
  "tabulate el points grad =
     (if grad then map_sum id Rank3 (tabulate_grad el points)
      else map_sum id Rank2 (tabulate_values el points))"


section \<open>The Lagrange element\<close>

text \<open>
  The entities of a cell in the order in which \<^verbatim>\<open>add_entity_node\<close> tries them, and the
  first of them that contains a node; a node that no entity contains is added to no
  list.
\<close>

definition entities :: "reference_cell \<Rightarrow> (nat \<times> nat) list" where
  "entities c =
     concat (map (\<lambda>d. map (\<lambda>i. (d, i)) [0..<entity_counts c ! d]) [0..<Suc (cell_dim c)])"

definition first_entity :: "reference_cell \<Rightarrow> npfloat list \<Rightarrow> (nat \<times> nat) option" where
  "first_entity c n = find (\<lambda>e. point_in_entity c n e) (entities c)"

text \<open>
  \<^verbatim>\<open>
  entity_nodes = {d: {i: [] for i in range(cell.entity_counts[d])} for d in range(cell.dim + 1)}
  for n_idx, n in enumerate(nodes):
      add_entity_node(n_idx, n)
  \<close>
  where \<^verbatim>\<open>add_entity_node\<close> appends \<open>added n_idx\<close> to the list of the first entity that
  contains \<open>n\<close>: \<open>[n_idx]\<close> in the Lagrange element, \<open>[2 * n_idx, 2 * n_idx + 1]\<close> in the
  vector element.
\<close>

definition build_entity_nodes ::
  "reference_cell \<Rightarrow> npfloat list list \<Rightarrow> (nat \<Rightarrow> nat list) \<Rightarrow> error + entity_map" where
  "build_entity_nodes c ns added =
     (if length (entity_counts c) < Suc (cell_dim c) then Inl IndexError
      else Inr (map (\<lambda>d. (d, map (\<lambda>i. (i, concat (map added
                                  (filter (\<lambda>n_idx. first_entity c (ns ! n_idx) = Some (d, i))
                                          [0..<length ns]))))
                               [0..<entity_counts c ! d]))
                    [0..<Suc (cell_dim c)]))"

definition LagrangeElement_init :: "reference_cell \<Rightarrow> int \<Rightarrow> error + FiniteElement" where
  "LagrangeElement_init c deg =
     (let ns = lagrange_points c deg in
      case build_entity_nodes c ns (\<lambda>n_idx. [n_idx]) of
        Inl e \<Rightarrow> Inl e
      | Inr en \<Rightarrow> FiniteElement_init c deg ns (Some en))"

section \<open>The vector finite element\<close>

record VectorFiniteElement =
  finite_element :: FiniteElement
  nodes :: "npfloat list list"
  entity_nodes :: entity_map
  nodes_per_entity :: "nat list"
  node_weights :: "int list list"
  node_count :: nat

text \<open>
  \<^verbatim>\<open>
  self.nodes = np.vstack([np.tile(n, (fe.cell.dim, 1)) for n in fe.nodes])
  ...
  self.nodes_per_entity = np.array([len(self.entity_nodes[d][0]) for d in range(fe.cell.dim + 1)])
  self.node_weights = np.array([[(i+1) % 2, i % 2] for i in range(self.nodes.shape[0])])
  self.node_count = self.nodes.shape[0]
  \<close>
  \<^verbatim>\<open>np.vstack([])\<close> raises ValueError.
\<close>

text \<open>\<^verbatim>\<open>[(i+1) % 2, i % 2]\<close>, the row \<open>i\<close> of \<open>node_weights\<close> and the vector \<open>e\<close> of \<open>tabulate\<close>.\<close>

definition unit_e :: "nat \<Rightarrow> int list" where
  "unit_e i = [(int i + 1) mod 2, int i mod 2]"

definition VectorFiniteElement_init :: "FiniteElement \<Rightarrow> error + VectorFiniteElement" where
  "VectorFiniteElement_init fe =
     (if FiniteElement.nodes fe = [] then Inl ValueError
      else
        (let vnodes = concat (map (replicate (cell_dim (cell fe))) (FiniteElement.nodes fe)) in
         case build_entity_nodes (cell fe) (FiniteElement.nodes fe)
                (\<lambda>n_idx. [2 * n_idx, 2 * n_idx + 1]) of
           Inl e \<Rightarrow> Inl e
         | Inr en \<Rightarrow>
             (case count_nodes_per_entity (cell_dim (cell fe)) en of
                Inl e \<Rightarrow> Inl e
              | Inr npe \<Rightarrow>
                  Inr \<lparr>finite_element = fe, nodes = vnodes, entity_nodes = en,
                       nodes_per_entity = npe,
                       node_weights = map unit_e [0..<length vnodes],
                       node_count = length vnodes\<rparr>)))"

text \<open>
  \<^verbatim>\<open>
  einsum_string = "ik, j-> ikj" if grad else "i, j-> ij"
  phi = self.finite_element.tabulate(points, grad)
  raw_shape = list(phi.shape)
  raw_shape[1] *= self.cell.dim
  vphi = np.zeros(raw_shape + [2])
  for i in range(vphi.shape[1]):
      e = np.array([(i+1) % 2, i % 2])
      vphi[:, i] = np.einsum(einsum_string, phi[:, i//2], e)
  return vphi
  \<close>
  \<open>phi.shape[1]\<close> is the number of columns of \<open>basis_coefs\<close>. \<^verbatim>\<open>phi[:, i//2]\<close> raises
  IndexError when \<open>i div 2\<close> is not an index of that axis.
\<close>

definition vector_tabulate_values ::
  "VectorFiniteElement \<Rightarrow> npfloat list list \<Rightarrow> error + npfloat list list list" where
  "vector_tabulate_values vel points =
     (let fe = finite_element vel; n = ncols (basis_coefs fe); m = cell_dim (cell fe) * n in
      case tabulate_values fe points of
        Inl e \<Rightarrow> Inl e
      | Inr phi \<Rightarrow>
          (if \<exists>i\<in>set [0..<m]. n \<le> i div 2 then Inl IndexError
           else Inr (map (\<lambda>row. map (\<lambda>i. map (\<lambda>ej. np_multiply (row ! (i div 2)) (np_of_int ej))
                                              (unit_e i))
                                    [0..<m]) phi)))"

definition vector_tabulate_grad ::
  "VectorFiniteElement \<Rightarrow> npfloat list list \<Rightarrow> error + npfloat list list list list" where
  "vector_tabulate_grad vel points =
     (let fe = finite_element vel; n = ncols (basis_coefs fe); m = cell_dim (cell fe) * n in
      case tabulate_grad fe points of
        Inl e \<Rightarrow> Inl e
      | Inr phi \<Rightarrow>
          (if \<exists>i\<in>set [0..<m]. n \<le> i div 2 then Inl IndexError
           else Inr (map (\<lambda>row. map (\<lambda>i. map (\<lambda>g. map (\<lambda>ej. np_multiply g (np_of_int ej))
                                                        (unit_e i))
                                              (row ! (i div 2)))
                                    [0..<m]) phi)))"

definition vector_tabulate :: "VectorFiniteElement \<Rightarrow> npfloat list list \<Rightarrow> bool \<Rightarrow> error + ndarray" where
  "vector_tabulate vel points grad =
     (if grad then map_sum id Rank4 (vector_tabulate_grad vel points)
      else map_sum id Rank3 (vector_tabulate_values vel points))"


section \<open>Notions used in the statements\<close>

text \<open>
  A cell of dimension \<open>d\<close> that has no entities, for the functions that read nothing
  but the dimension of the cell.
\<close>

definition dim_cell :: "nat \<Rightarrow> reference_cell" where
  "dim_cell d = \<lparr>cell_dim = d, entity_counts = [], point_in_entity = (\<lambda>p e. False)\<rparr>"


text \<open>
  For the correctness of the elimination: a row of length \<open>n\<close> as a function of the
  column, the linear span of a set of rows, and the invariant of \<open>gauss_jordan\<close>. A
  pair \<open>(a, b)\<close> is a row of the elimination on \<open>M\<close> when \<open>a = b M\<close>. After \<open>c\<close>
  columns the first \<open>c\<close> columns of the solved rows are those of the identity matrix,
  the pending rows are zero there, and the rows of the identity matrix are still in the
  span of the right halves.
\<close>

definition row_vec :: "nat \<Rightarrow> real list \<Rightarrow> nat \<Rightarrow> real" where
  "row_vec n r = (\<lambda>j. if j < n then r ! j else 0)"

inductive_set row_span :: "(nat \<Rightarrow> real) set \<Rightarrow> (nat \<Rightarrow> real) set" for S where
  zero: "(\<lambda>j. 0) \<in> row_span S"
| base: "v \<in> S \<Longrightarrow> v \<in> row_span S"
| add: "u \<in> row_span S \<Longrightarrow> v \<in> row_span S \<Longrightarrow> (\<lambda>j. u j + v j) \<in> row_span S"
| scale: "v \<in> row_span S \<Longrightarrow> (\<lambda>j. k * v j) \<in> row_span S"

definition row_ok :: "nat \<Rightarrow> real list list \<Rightarrow> aug_row \<Rightarrow> bool" where
  "row_ok n M r \<longleftrightarrow>
     length (fst r) = n \<and> length (snd r) = n \<and>
     (\<forall>j<n. fst r ! j = (\<Sum>i<n. snd r ! i * M ! i ! j))"

definition gj_inv ::
  "nat \<Rightarrow> real list list \<Rightarrow> nat \<Rightarrow> aug_row list \<Rightarrow> aug_row list \<Rightarrow> bool" where
  "gj_inv n M c solved pending \<longleftrightarrow>
     length solved = c \<and> c + length pending = n \<and>
     (\<forall>r\<in>set solved \<union> set pending. row_ok n M r) \<and>
     (\<forall>k<c. \<forall>j<c. fst (solved ! k) ! j = (if j = k then 1 else 0)) \<and>
     (\<forall>r\<in>set pending. \<forall>j<c. fst r ! j = 0) \<and>
     (\<forall>m<n. row_vec n (unit_row n m) \<in> row_span ((\<lambda>r. row_vec n (snd r)) ` (set solved \<union> set pending)))"

text \<open>Arrays of shape \<open>(n, n)\<close>, the product of two real matrices, \<^verbatim>\<open>np.eye(n)\<close>.\<close>

definition square :: "nat \<Rightarrow> 'a list list \<Rightarrow> bool" where
  "square n M \<longleftrightarrow> length M = n \<and> (\<forall>r\<in>set M. length r = n)"

definition real_matmul :: "real list list \<Rightarrow> real list list \<Rightarrow> real list list" where
  "real_matmul A B = map (\<lambda>r. map (\<lambda>l. \<Sum>j<length B. r ! j * B ! j ! l) [0..<ncols B]) A"


definition all_finite :: "npfloat list list \<Rightarrow> bool" where
  "all_finite A \<longleftrightarrow> (\<forall>r\<in>set A. \<forall>x\<in>set r. is_finite x)"

text \<open>
  The monomials of the Vandermonde matrix at a point with finite coordinates, in the
  order of its columns: \<open>x ^ (i - j) * y ^ j\<close> where \<open>x\<close> is the first and \<open>y\<close> the last
  coordinate of the point. A polynomial of the space is given by one coefficient for each
  monomial. A set of nodes is unisolvent when the values at the nodes determine the
  polynomial.
\<close>

definition monomials :: "nat \<Rightarrow> int \<Rightarrow> real list \<Rightarrow> real list" where
  "monomials d deg p = map (\<lambda>(i, j). hd p ^ nat (i - j) * last p ^ nat j) (basis_indices d deg)"

definition polynomial :: "nat \<Rightarrow> int \<Rightarrow> real list \<Rightarrow> real list \<Rightarrow> real" where
  "polynomial d deg coefs p = sum_list (map2 (*) coefs (monomials d deg p))"

definition unisolvent :: "nat \<Rightarrow> int \<Rightarrow> real list list \<Rightarrow> bool" where
  "unisolvent d deg ns \<longleftrightarrow>
     (\<forall>coefs coefs'. length coefs = length (basis_indices d deg) \<and>
        length coefs' = length (basis_indices d deg) \<and>
        (\<forall>p\<in>set ns. polynomial d deg coefs p = polynomial d deg coefs' p) \<longrightarrow> coefs = coefs')"



text \<open>
  The exponents \<open>(a, e)\<close> of the monomials \<open>x ^ a * y ^ e\<close> in the order of the columns,
  the entry of the gradient array as the code computes it, and what the power rule asks
  of the gradient \<open>g\<close> of the monomial with the exponents \<open>ae\<close> at the point \<open>p\<close>:
  \<open>g\<close> has one entry for each dimension, entry 0 is the derivative in \<open>x\<close> and, on
  the triangle, entry 1 is the derivative in \<open>y\<close>; the derivative in a variable with
  exponent 0 is 0.
\<close>

definition monomial_exponents :: "nat \<Rightarrow> int \<Rightarrow> (nat \<times> nat) list" where
  "monomial_exponents d deg = map (\<lambda>(i, j). (nat (i - j), nat j)) (basis_indices d deg)"

definition grad_entry :: "real list \<Rightarrow> int \<Rightarrow> int \<Rightarrow> int \<Rightarrow> real" where
  "grad_entry p i j k =
     real_of_int ((i - j) * (1 - k) + j * k)
     * (hd p ^ nat (max (i - j - (1 - k)) 0) * last p ^ nat (max (j - k) 0))"


text \<open>Rank 3 arrays of finite numbers.\<close>

definition all_finite3 :: "npfloat list list list \<Rightarrow> bool" where
  "all_finite3 T \<longleftrightarrow> (\<forall>t\<in>set T. all_finite t)"

text \<open>
  Modelled from the spec: the two reference cells of \<^verbatim>\<open>reference_elements.py\<close>, which
  is not among the sources. The interval is \<open>[0, 1]\<close> with the vertices 0 and 1; the
  triangle has the vertices \<open>(0, 0)\<close>, \<open>(1, 0)\<close> and \<open>(0, 1)\<close>, three edges and one
  face. An entity contains the points of the cell that lie on it. The spec does not
  number the edges of the triangle: edge \<open>i\<close> is taken opposite to vertex \<open>i\<close>. The
  tabulations below do not read the entities.
\<close>

definition ReferenceInterval :: reference_cell where
  "ReferenceInterval =
     \<lparr>cell_dim = 1, entity_counts = [2, 1],
      point_in_entity = (\<lambda>p e. case p of
          [Fin x] \<Rightarrow> e = (0, 0) \<and> x = 0 \<or> e = (0, 1) \<and> x = 1 \<or> e = (1, 0) \<and> 0 \<le> x \<and> x \<le> 1
        | _ \<Rightarrow> False)\<rparr>"

definition ReferenceTriangle :: reference_cell where
  "ReferenceTriangle =
     \<lparr>cell_dim = 2, entity_counts = [3, 3, 1],
      point_in_entity = (\<lambda>p e. case p of
          [Fin x, Fin y] \<Rightarrow>
            e = (0, 0) \<and> x = 0 \<and> y = 0 \<or> e = (0, 1) \<and> x = 1 \<and> y = 0 \<or>
            e = (0, 2) \<and> x = 0 \<and> y = 1 \<or>
            0 \<le> x \<and> 0 \<le> y \<and> x + y \<le> 1 \<and>
              (e = (1, 0) \<and> x + y = 1 \<or> e = (1, 1) \<and> x = 0 \<or> e = (1, 2) \<and> y = 0 \<or> e = (2, 0))
        | _ \<Rightarrow> False)\<rparr>"

text \<open>
  The Lagrange elements of degree 1 on the two reference cells and the vector elements
  over them, as the constructors return them.
\<close>

definition P1_interval :: FiniteElement where
  "P1_interval =
     \<lparr>cell = ReferenceInterval, degree = 1, nodes = [[Fin 0], [Fin 1]],
      entity_nodes = Some [(0, [(0, [0]), (1, [1])]), (1, [(0, [])])],
      nodes_per_entity = Some [1, 0],
      basis_coefs = [[Fin 1, Fin 0], [Fin (- 1), Fin 1]], node_count = 2\<rparr>"

definition P1_triangle :: FiniteElement where
  "P1_triangle =
     \<lparr>cell = ReferenceTriangle, degree = 1,
      nodes = [[Fin 0, Fin 0], [Fin 1, Fin 0], [Fin 0, Fin 1]],
      entity_nodes = Some [(0, [(0, [0]), (1, [1]), (2, [2])]),
                           (1, [(0, []), (1, []), (2, [])]), (2, [(0, [])])],
      nodes_per_entity = Some [1, 0, 0],
      basis_coefs = [[Fin 1, Fin 0, Fin 0], [Fin (- 1), Fin 1, Fin 0], [Fin (- 1), Fin 0, Fin 1]],
      node_count = 3\<rparr>"

definition VP1_interval :: VectorFiniteElement where
  "VP1_interval =
     \<lparr>finite_element = P1_interval, nodes = [[Fin 0], [Fin 1]],
      entity_nodes = [(0, [(0, [0, 1]), (1, [2, 3])]), (1, [(0, [])])],
      nodes_per_entity = [2, 0], node_weights = [[1, 0], [0, 1]], node_count = 2\<rparr>"

definition VP1_triangle :: VectorFiniteElement where
  "VP1_triangle =
     \<lparr>finite_element = P1_triangle,
      nodes = [[Fin 0, Fin 0], [Fin 0, Fin 0], [Fin 1, Fin 0], [Fin 1, Fin 0],
               [Fin 0, Fin 1], [Fin 0, Fin 1]],
      entity_nodes = [(0, [(0, [0, 1]), (1, [2, 3]), (2, [4, 5])]),
                      (1, [(0, []), (1, []), (2, [])]), (2, [(0, [])])],
      nodes_per_entity = [2, 0, 0],
      node_weights = [[1, 0], [0, 1], [1, 0], [0, 1], [1, 0], [0, 1]], node_count = 6\<rparr>"

section \<open>Properties of the node generator\<close>

lemma product_repeat_1: "product_repeat xs (Suc 0) = map (\<lambda>x. [x]) xs"
  by (induction xs) auto

lemma product_repeat_2:
  "product_repeat xs (Suc (Suc 0)) = concat (map (\<lambda>x. map (\<lambda>y. [x, y]) xs) xs)"
  by (simp only: product_repeat.simps(2)[of xs "Suc 0"] product_repeat_1) (simp add: comp_def)

lemma product_repeat_single: "product_repeat [x] n = [replicate n x]"
  by (induction n) auto


lemma length_filter_upto_le:
  assumes "0 \<le> x" "x \<le> d"
  shows "length (filter (\<lambda>y. x + y \<le> d) [0..d]) = nat (d - x + 1)"
proof -
  have "[0..d] = [0..d - x] @ [d - x + 1..d]"
    using assms upto_split2[of 0 "d - x" d] by simp
  moreover have "filter (\<lambda>y. x + y \<le> d) [0..d - x] = [0..d - x]"
    by (rule filter_True) auto
  moreover have "filter (\<lambda>y. x + y \<le> d) [d - x + 1..d] = []"
    by (rule filter_False) auto
  ultimately show ?thesis using assms by simp
qed

lemma sum_list_countdown:
  "0 \<le> d \<Longrightarrow> 2 * sum_list (map (\<lambda>x. d - x + 1) [0..d]) = (d + 1) * (d + 2)"
proof (induction "nat d" arbitrary: d)
  case 0
  then show ?case by simp
next
  case (Suc n)
  then have d: "0 < d" "n = nat (d - 1)" "0 \<le> d - 1" by auto
  have "[0..d] = [0..d - 1] @ [d]" using d by (simp add: upto_rec2)
  then have "sum_list (map (\<lambda>x. d - x + 1) [0..d])
             = sum_list (map (\<lambda>x. (d - 1) - x + 1 + 1) [0..d - 1]) + 1"
    by simp
  also have "\<dots> = sum_list (map (\<lambda>x. (d - 1) - x + 1) [0..d - 1]) + d + 1"
    using d by (simp add: sum_list_addf sum_list_triv)
  finally show ?case using Suc.hyps(1)[OF d(2) d(3)] by (simp add: algebra_simps)
qed

lemma int_sum_list_map: "int (sum_list (map f xs)) = sum_list (map (\<lambda>x. int (f x)) xs)"
  by (induction xs) auto


lemma length_lagrange_points_1:
  assumes "cell_dim c = 1" "0 \<le> deg"
  shows "int (length (lagrange_points c deg)) = deg + 1"
proof -
  have "filter (\<lambda>i. sum_list i \<le> deg) (map (\<lambda>x. [x]) [0..deg]) = map (\<lambda>x. [x]) [0..deg]"
    by (rule filter_True) auto
  then show ?thesis
    using assms by (simp add: lagrange_points_def product_repeat_1)
qed

lemma length_lagrange_points_2:
  assumes "cell_dim c = 2" "0 \<le> deg"
  shows "2 * int (length (lagrange_points c deg)) = (deg + 1) * (deg + 2)"
proof -
  have two: "(2::nat) = Suc (Suc 0)" by simp
  have "length (lagrange_points c deg) =
        sum_list (map (\<lambda>x. length (filter (\<lambda>y. x + y \<le> deg) [0..deg])) [0..deg])"
    using assms(1)
    by (simp add: lagrange_points_def two product_repeat_2 filter_concat length_concat
        comp_def filter_map del: product_repeat.simps)
  also have "int \<dots> = sum_list (map (\<lambda>x. deg - x + 1) [0..deg])"
  proof -
    have "map (\<lambda>x. int (length (filter (\<lambda>y. x + y \<le> deg) [0..deg]))) [0..deg]
        = map (\<lambda>x. deg - x + 1) [0..deg]"
      by (rule map_cong) (auto simp: length_filter_upto_le)
    then show ?thesis by (simp only: int_sum_list_map)
  qed
  finally show ?thesis using sum_list_countdown[OF assms(2)] by simp
qed

text \<open>
  C3. On a cell of dimension 1 or 2 and for every degree \<open>\<ge> 0\<close>, the node generator
  returns exactly \<open>expected_count (cell.dim) degree\<close> nodes: \<open>degree + 1\<close> on the interval
  and \<open>(degree + 1) (degree + 2) / 2\<close> on the triangle.
\<close>

theorem lagrange_points_count:
  assumes "cell_dim c \<in> {1, 2}" "0 \<le> deg"
  shows "int (length (lagrange_points c deg)) = expected_count (cell_dim c) deg"
proof (cases "cell_dim c = 1")
  case True
  then show ?thesis using assms(2) by (simp add: expected_count_def length_lagrange_points_1)
next
  case False
  then have d: "cell_dim c = 2" using assms(1) by auto
  have "2 * int (length (lagrange_points c deg)) = (deg + 1) * (deg + 2)"
    by (rule length_lagrange_points_2[OF d assms(2)])
  then show ?thesis using d by (simp add: expected_count_def)
qed

theorem lagrange_points_count_witness:
  "cell_dim (dim_cell 2) \<in> {1, 2} \<and> (0::int) \<le> 3
   \<and> int (length (lagrange_points (dim_cell 2) 3)) = expected_count (cell_dim (dim_cell 2)) 3
   \<and> expected_count (cell_dim (dim_cell 2)) 3 = 10"
  using lagrange_points_count[of "dim_cell 2" 3] by (simp add: dim_cell_def expected_count_def)



text \<open>
  C6, as the code has it. For degree 0 the node generator returns a single node, and
  every coordinate of that node is NaN: the only tuple is all zeros, and it is divided
  by the degree, \<open>0 / 0\<close>, with numpy's warnings silenced. Nothing is raised.
\<close>

theorem lagrange_points_degree_0:
  "lagrange_points c 0 = [replicate (cell_dim c) NaN]"
  by (simp add: lagrange_points_def product_repeat_single np_true_divide_def sum_list_replicate)

text \<open>
  The claim that the node of degree 0 is never NaN fails on the interval: the node
  is \<open>[NaN]\<close>.
\<close>

theorem degree_0_node_counterexample:
  "lagrange_points (dim_cell 1) 0 = [[NaN]] \<and> \<not> is_finite NaN"
  by (simp add: lagrange_points_def dim_cell_def np_true_divide_def is_finite_def)

text \<open>
  C7, as the code has it. For every negative degree the node generator returns the
  empty list of nodes; it raises nothing.
\<close>

theorem lagrange_points_negative_degree:
  assumes "deg < 0"
  shows "lagrange_points c deg = []"
proof -
  have "[0..deg] = []" using assms by simp
  moreover have "filter (\<lambda>i. sum_list i \<le> deg) (product_repeat [] n) = []" for n
    using assms by (cases n) auto
  ultimately show ?thesis by (simp add: lagrange_points_def)
qed

theorem lagrange_points_negative_degree_witness:
  "(-1::int) < 0 \<and> lagrange_points (dim_cell 2) (-1) = []"
  using lagrange_points_negative_degree[of "-1" "dim_cell 2"] by simp

text \<open>
  The claim that a negative degree makes the node generator fail does not hold on the
  interval with degree \<open>-1\<close>: the call returns, with no node.
\<close>

theorem negative_degree_counterexample:
  "lagrange_points (dim_cell 1) (-1) = []"
  by (simp add: lagrange_points_def dim_cell_def)

section \<open>Correctness of the elimination\<close>

lemma row_span_mono: "v \<in> row_span S \<Longrightarrow> S \<subseteq> row_span T \<Longrightarrow> v \<in> row_span T"
  by (induction rule: row_span.induct) (auto intro: row_span.intros)

lemma row_ok_scale: "row_ok n M r \<Longrightarrow> row_ok n M (row_scale k r)"
  by (simp add: row_ok_def row_scale_def sum_distrib_left mult.assoc)

lemma row_ok_sub: "row_ok n M p \<Longrightarrow> row_ok n M r \<Longrightarrow> row_ok n M (row_sub f p r)"
  by (simp add: row_ok_def row_sub_def sum_subtractf sum_distrib_left left_diff_distrib mult.assoc)

lemma find_pivot_Some:
  "find_pivot c rs = Some (p, rest) \<Longrightarrow>
     fst p ! c \<noteq> 0 \<and> set rs = insert p (set rest) \<and> length rs = Suc (length rest)"
  by (induction rs arbitrary: p rest) (auto split: if_splits option.splits)

lemma find_pivot_None: "find_pivot c rs = None \<Longrightarrow> \<forall>r\<in>set rs. fst r ! c = 0"
  by (induction rs) (auto split: if_splits option.splits)

lemma eliminate_fst_nth:
  "length (fst r) = n \<Longrightarrow> length (fst q) = n \<Longrightarrow> j < n \<Longrightarrow>
   fst (eliminate c q r) ! j = fst r ! j - fst r ! c * fst q ! j"
  by (simp add: eliminate_def row_sub_def)

lemma eliminate_snd_vec:
  assumes "length (snd r) = n" "length (snd q) = n"
  shows "row_vec n (snd r) =
         (\<lambda>j. row_vec n (snd (eliminate c q r)) j + fst r ! c * row_vec n (snd q) j)"
  using assms by (auto simp: fun_eq_iff row_vec_def eliminate_def row_sub_def)

lemma scale_snd_vec:
  assumes "length (snd p) = n" "k \<noteq> 0"
  shows "row_vec n (snd p) = (\<lambda>j. (1 / k) * row_vec n (snd (row_scale k p)) j)"
  using assms by (auto simp: fun_eq_iff row_vec_def row_scale_def)

lemma row_ok_eliminate: "row_ok n M q \<Longrightarrow> row_ok n M r \<Longrightarrow> row_ok n M (eliminate c q r)"
  by (simp add: eliminate_def row_ok_sub)

lemma gj_step:
  assumes inv: "gj_inv n M c solved pending"
    and fp: "find_pivot c pending = Some (p, rest)"
    and q: "q = row_scale (1 / fst p ! c) p"
  shows "gj_inv n M (Suc c) (map (eliminate c q) solved @ [q]) (map (eliminate c q) rest)"
proof -
  from find_pivot_Some[OF fp] have piv: "fst p ! c \<noteq> 0"
    and pend: "set pending = insert p (set rest)" and len: "length pending = Suc (length rest)"
    by auto
  from inv have ls: "length solved = c" and cn: "c + length pending = n"
    and ok: "\<And>r. r \<in> set solved \<union> set pending \<Longrightarrow> row_ok n M r"
    and idm: "\<And>k j. k < c \<Longrightarrow> j < c \<Longrightarrow> fst (solved ! k) ! j = (if j = k then 1 else 0)"
    and zer: "\<And>r j. r \<in> set pending \<Longrightarrow> j < c \<Longrightarrow> fst r ! j = 0"
    and spn: "\<And>m. m < n \<Longrightarrow> row_vec n (unit_row n m)
                \<in> row_span ((\<lambda>r. row_vec n (snd r)) ` (set solved \<union> set pending))"
    unfolding gj_inv_def by auto
  have c: "c < n" using cn len by simp
  have okp: "row_ok n M p" using ok pend by auto
  have okq: "row_ok n M q" unfolding q by (rule row_ok_scale[OF okp])
  have lq: "length (fst q) = n" "length (snd q) = n" using okq by (auto simp: row_ok_def)
  have lp: "length (fst p) = n" "length (snd p) = n" using okp by (auto simp: row_ok_def)
  have qc: "fst q ! c = 1" using piv c lp by (simp add: q row_scale_def)
  have qz: "fst q ! j = 0" if "j < c" for j
    using zer[of p j] that c lp pend by (simp add: q row_scale_def)
  have el: "fst (eliminate c q r) ! j = fst r ! j - fst r ! c * fst q ! j"
    if "row_ok n M r" "j < n" for r j
    using that lq by (intro eliminate_fst_nth) (auto simp: row_ok_def)
  let ?S' = "(\<lambda>r. row_vec n (snd r)) `
              (set (map (eliminate c q) solved @ [q]) \<union> set (map (eliminate c q) rest))"
  have qS: "row_vec n (snd q) \<in> row_span ?S'" by (rule row_span.base) simp
  have old: "row_vec n (snd r) \<in> row_span ?S'" if r: "r \<in> set solved \<union> set pending" for r
  proof (cases "r = p")
    case True
    have "row_vec n (snd p) = (\<lambda>j. (1 / (1 / fst p ! c)) * row_vec n (snd q) j)"
      unfolding q using piv by (intro scale_snd_vec lp) simp
    then show ?thesis using True row_span.scale[OF qS] by simp
  next
    case False
    then have "r \<in> set solved \<union> set rest" using r pend by auto
    then have "row_vec n (snd (eliminate c q r)) \<in> row_span ?S'"
      by (intro row_span.base) auto
    moreover have "length (snd r) = n" using ok[OF r] by (simp add: row_ok_def)
    ultimately show ?thesis
      using eliminate_snd_vec[of r n q c] lq row_span.add row_span.scale[OF qS] by simp
  qed
  have 1: "length (map (eliminate c q) solved @ [q]) = Suc c" using ls by simp
  have 2: "Suc c + length (map (eliminate c q) rest) = n" using cn len by simp
  have 3: "\<forall>r\<in>set (map (eliminate c q) solved @ [q]) \<union> set (map (eliminate c q) rest).
             row_ok n M r"
    using ok okq pend by (auto intro!: row_ok_eliminate)
  have 4: "\<forall>k<Suc c. \<forall>j<Suc c.
             fst ((map (eliminate c q) solved @ [q]) ! k) ! j = (if j = k then 1 else 0)"
  proof (intro allI impI)
    fix k j assume k: "k < Suc c" and j: "j < Suc c"
    show "fst ((map (eliminate c q) solved @ [q]) ! k) ! j = (if j = k then 1 else 0)"
    proof (cases "k < c")
      case True
      then have okk: "row_ok n M (solved ! k)" using ok ls by auto
      have "fst ((map (eliminate c q) solved @ [q]) ! k) ! j
            = fst (solved ! k) ! j - fst (solved ! k) ! c * fst q ! j"
        using True ls j c by (simp add: nth_append el[OF okk])
      then show ?thesis
        using True j idm[OF True] qc qz by (cases "j = c") auto
    next
      case False
      then have "k = c" using k by simp
      then show ?thesis using ls j qc qz by (cases "j = c") (auto simp: nth_append)
    qed
  qed
  have 5: "\<forall>r\<in>set (map (eliminate c q) rest). \<forall>j<Suc c. fst r ! j = 0"
  proof (intro ballI allI impI)
    fix r' j assume "r' \<in> set (map (eliminate c q) rest)" and j: "j < Suc c"
    then obtain r where r: "r \<in> set rest" "r' = eliminate c q r" by auto
    then have rp: "r \<in> set pending" using pend by auto
    have "fst r' ! j = fst r ! j - fst r ! c * fst q ! j"
      using el[of r j] ok rp j c r by auto
    then show "fst r' ! j = 0"
      using zer[OF rp] qc qz j by (cases "j = c") auto
  qed
  have 6: "\<forall>m<n. row_vec n (unit_row n m) \<in> row_span ?S'"
  proof (intro allI impI)
    fix m assume m: "m < n"
    have sub: "(\<lambda>r. row_vec n (snd r)) ` (set solved \<union> set pending) \<subseteq> row_span ?S'"
      using old by blast
    show "row_vec n (unit_row n m) \<in> row_span ?S'"
      by (rule row_span_mono[OF spn[OF m] sub])
  qed
  show ?thesis
    unfolding gj_inv_def by (intro conjI 1 2 3 4 5 6)
qed

lemma gj_loop:
  assumes "gj_inv n M c solved pending"
    and "gauss_jordan [c..<n] solved pending = Some rows"
  shows "gj_inv n M n rows []"
  using assms
proof (induction "n - c" arbitrary: c solved pending)
  case 0
  then have "c + length pending = n" by (simp add: gj_inv_def)
  with 0 have "c = n" "pending = []" by auto
  with 0 show ?case by simp
next
  case (Suc k)
  then have c: "c < n" by simp
  then have up: "[c..<n] = c # [Suc c..<n]" by (simp add: upt_conv_Cons)
  from Suc.prems(2) obtain p rest where fp: "find_pivot c pending = Some (p, rest)"
    and rec: "gauss_jordan [Suc c..<n]
                (map (eliminate c (row_scale (1 / fst p ! c) p)) solved @ [row_scale (1 / fst p ! c) p])
                (map (eliminate c (row_scale (1 / fst p ! c) p)) rest) = Some rows"
    unfolding up by (auto simp: Let_def split: option.splits)
  have "k = n - Suc c" using Suc.hyps(2) by simp
  from Suc.hyps(1)[OF this gj_step[OF Suc.prems(1) fp refl] rec] show ?case .
qed

lemma unit_row_nth: "j < n \<Longrightarrow> unit_row n k ! j = (if j = k then 1 else 0)"
  by (simp add: unit_row_def)

lemma length_unit_row: "length (unit_row n k) = n"
  by (simp add: unit_row_def)

lemma gj_init:
  assumes "length M = n" "\<forall>r\<in>set M. length r = n"
  shows "gj_inv n M 0 [] (zip M (map (unit_row n) [0..<n]))"
proof -
  let ?P = "zip M (map (unit_row n) [0..<n])"
  have mem: "r \<in> set ?P \<longleftrightarrow> (\<exists>k<n. r = (M ! k, unit_row n k))" for r
    using assms(1) by (auto simp: set_zip)
  have ok: "row_ok n M (M ! k, unit_row n k)" if "k < n" for k
  proof -
    have "(\<Sum>i<n. unit_row n k ! i * M ! i ! j) = M ! k ! j" for j
    proof -
      have "(\<Sum>i<n. unit_row n k ! i * M ! i ! j) = (\<Sum>i<n. if i = k then M ! i ! j else 0)"
        by (rule sum.cong) (auto simp: unit_row_nth)
      also have "\<dots> = M ! k ! j" using that by (simp add: sum.delta')
      finally show ?thesis .
    qed
    then show ?thesis using that assms by (simp add: row_ok_def length_unit_row)
  qed
  have sp: "row_vec n (unit_row n m) \<in> row_span ((\<lambda>r. row_vec n (snd r)) ` (set [] \<union> set ?P))"
    if "m < n" for m
  proof (rule row_span.base)
    have "(M ! m, unit_row n m) \<in> set ?P" using that mem by blast
    then show "row_vec n (unit_row n m) \<in> (\<lambda>r. row_vec n (snd r)) ` (set [] \<union> set ?P)"
      by force
  qed
  show ?thesis
    unfolding gj_inv_def using assms(1) ok sp mem by auto
qed

lemma gj_final_left:
  assumes "gj_inv n M n rows []" "i < n" "j < n"
  shows "(\<Sum>k<n. map snd rows ! i ! k * M ! k ! j) = (if i = j then 1 else 0)"
proof -
  from assms have len: "length rows = n" and ok: "row_ok n M (rows ! i)"
    and idm: "fst (rows ! i) ! j = (if j = i then 1 else 0)"
    by (auto simp: gj_inv_def)
  then show ?thesis using assms(2) by (auto simp: row_ok_def assms(3))
qed

lemma gj_final_shape:
  assumes "gj_inv n M n rows []"
  shows "length (map snd rows) = n" "\<forall>r\<in>set (map snd rows). length r = n"
  using assms by (auto simp: gj_inv_def row_ok_def)

lemma gj_span_fixed:
  assumes inv: "gj_inv n M n rows []"
    and v: "v \<in> row_span ((\<lambda>r. row_vec n (snd r)) ` set rows)"
    and j: "j < n"
  shows "(\<Sum>i<n. (\<Sum>k<n. v k * M ! k ! i) * map snd rows ! i ! j) = v j"
  using v
proof (induction rule: row_span.induct)
  case zero
  then show ?case by simp
next
  case (base v)
  then obtain r where r: "r \<in> set rows" "v = row_vec n (snd r)" by auto
  then obtain k' where k': "k' < n" "r = rows ! k'"
    using inv by (auto simp: gj_inv_def in_set_conv_nth)
  have ok: "row_ok n M (rows ! k')" using inv k' by (auto simp: gj_inv_def)
  have len: "length rows = n" using inv by (simp add: gj_inv_def)
  have "(\<Sum>k<n. v k * M ! k ! i) = (if i = k' then 1 else 0)" if "i < n" for i
  proof -
    have "(\<Sum>k<n. v k * M ! k ! i) = (\<Sum>k<n. snd (rows ! k') ! k * M ! k ! i)"
      by (rule sum.cong) (auto simp: r k' row_vec_def)
    also have "\<dots> = fst (rows ! k') ! i" using ok that by (simp add: row_ok_def)
    also have "\<dots> = (if i = k' then 1 else 0)" using inv that k' by (simp add: gj_inv_def)
    finally show ?thesis .
  qed
  then have "(\<Sum>i<n. (\<Sum>k<n. v k * M ! k ! i) * map snd rows ! i ! j)
             = (\<Sum>i<n. if i = k' then map snd rows ! i ! j else 0)"
    by (intro sum.cong) auto
  also have "\<dots> = map snd rows ! k' ! j" using k' by (simp add: sum.delta')
  also have "\<dots> = v j" using k' r j len by (simp add: row_vec_def)
  finally show ?case .
next
  case (add u v)
  then show ?case
    by (simp add: distrib_right sum.distrib)
next
  case (scale v k)
  have "(\<Sum>i<n. (\<Sum>ka<n. k * v ka * M ! ka ! i) * map snd rows ! i ! j)
        = k * (\<Sum>i<n. (\<Sum>ka<n. v ka * M ! ka ! i) * map snd rows ! i ! j)"
    by (simp add: sum_distrib_left sum_distrib_right mult.assoc)
  then show ?case using scale by simp
qed

lemma gj_final_right:
  assumes inv: "gj_inv n M n rows []" and i: "i < n" and j: "j < n"
  shows "(\<Sum>k<n. M ! i ! k * map snd rows ! k ! j) = (if i = j then 1 else 0)"
proof -
  have sp: "row_vec n (unit_row n i) \<in> row_span ((\<lambda>r. row_vec n (snd r)) ` set rows)"
    using inv i by (simp add: gj_inv_def)
  have "(\<Sum>k<n. row_vec n (unit_row n i) k * M ! k ! l) = M ! i ! l" for l
  proof -
    have "(\<Sum>k<n. row_vec n (unit_row n i) k * M ! k ! l) = (\<Sum>k<n. if k = i then M ! k ! l else 0)"
      by (rule sum.cong) (auto simp: row_vec_def unit_row_nth)
    also have "\<dots> = M ! i ! l" using i by (simp add: sum.delta')
    finally show ?thesis .
  qed
  with gj_span_fixed[OF inv sp j] have "(\<Sum>k<n. M ! i ! k * map snd rows ! k ! j) = row_vec n (unit_row n i) j"
    by simp
  then show ?thesis using i j by (auto simp: row_vec_def unit_row_nth)
qed

lemma real_inverse_sound:
  assumes "square n M" "real_inverse M = Some C"
  shows "square n C"
    and "\<And>i j. i < n \<Longrightarrow> j < n \<Longrightarrow> (\<Sum>k<n. C ! i ! k * M ! k ! j) = (if i = j then 1 else 0)"
    and "\<And>i j. i < n \<Longrightarrow> j < n \<Longrightarrow> (\<Sum>k<n. M ! i ! k * C ! k ! j) = (if i = j then 1 else 0)"
proof -
  from assms obtain rows where rows:
    "gauss_jordan [0..<n] [] (zip M (map (unit_row n) [0..<n])) = Some rows" "C = map snd rows"
    by (auto simp: real_inverse_def square_def)
  have "gj_inv n M 0 [] (zip M (map (unit_row n) [0..<n]))"
    using assms(1) by (intro gj_init) (auto simp: square_def)
  from gj_loop[OF this rows(1)] have inv: "gj_inv n M n rows []" .
  show "square n C" using gj_final_shape[OF inv] rows(2) by (simp add: square_def)
  show "\<And>i j. i < n \<Longrightarrow> j < n \<Longrightarrow> (\<Sum>k<n. C ! i ! k * M ! k ! j) = (if i = j then 1 else 0)"
    unfolding rows(2) by (rule gj_final_left[OF inv])
  show "\<And>i j. i < n \<Longrightarrow> j < n \<Longrightarrow> (\<Sum>k<n. M ! i ! k * C ! k ! j) = (if i = j then 1 else 0)"
    unfolding rows(2) by (rule gj_final_right[OF inv])
qed

section \<open>Arrays of finite numbers\<close>

lemma np_sum_Fin: "np_sum (map Fin xs) = Fin (sum_list xs)"
  by (induction xs) auto

lemma np_sum_Fin_upt: "np_sum (map (\<lambda>j. Fin (f j)) [0..<n]) = Fin (\<Sum>j<n. f j)"
proof -
  have "np_sum (map (\<lambda>j. Fin (f j)) [0..<n]) = np_sum (map Fin (map f [0..<n]))"
    by (simp add: comp_def)
  also have "\<dots> = Fin (sum_list (map f [0..<n]))" by (rule np_sum_Fin)
  also have "sum_list (map f [0..<n]) = (\<Sum>j<n. f j)"
    by (simp add: interv_sum_list_conv_sum_set_nat atLeast0LessThan)
  finally show ?thesis .
qed

lemma np_power_Fin: "np_power (Fin x) n = Fin (x ^ n)"
  by (induction n) auto



lemma those_map_Some: "those (map Some r) = Some r"
  by (induction r) auto

lemma finite_matrix_lift: "finite_matrix (map (map Fin) M) = Some M"
  by (induction M) (auto simp: finite_matrix_def those_map_Some comp_def)




lemma ncols_lift: "ncols (map (map f) B) = ncols B"
  by (cases B) (auto simp: ncols_def)

lemma np_matmul_lift:
  assumes A: "\<forall>r\<in>set A. length r = length B" and B: "\<forall>r\<in>set B. length r = ncols B"
  shows "np_matmul (map (map Fin) A) (map (map Fin) B) = Inr (map (map Fin) (real_matmul A B))"
proof -
  have row: "map (\<lambda>l. np_sum (map (\<lambda>j. np_multiply (map Fin r ! j) (map (map Fin) B ! j ! l))
                                  [0..<length B])) [0..<ncols B]
             = map Fin (map (\<lambda>l. \<Sum>j<length B. r ! j * B ! j ! l) [0..<ncols B])"
    if r: "length r = length B" for r
  proof -
    have "np_sum (map (\<lambda>j. np_multiply (map Fin r ! j) (map (map Fin) B ! j ! l)) [0..<length B])
          = Fin (\<Sum>j<length B. r ! j * B ! j ! l)" if l: "l < ncols B" for l
    proof -
      have "map (\<lambda>j. np_multiply (map Fin r ! j) (map (map Fin) B ! j ! l)) [0..<length B]
            = map (\<lambda>j. Fin (r ! j * B ! j ! l)) [0..<length B]"
        using r l B by (intro map_cong) auto
      then show ?thesis by (simp only: np_sum_Fin_upt)
    qed
    then show ?thesis by simp
  qed
  show ?thesis
    using A by (simp add: np_matmul_def real_matmul_def ncols_lift row cong: map_cong)
qed

section \<open>Tabulation at the nodes\<close>


lemma FiniteElement_init_Inr:
  assumes "FiniteElement_init c deg ns en = Inr el"
  shows "\<exists>V C. vandermonde_values c deg ns = Inr V \<and>
    np_linalg_inv (length (basis_indices (cell_dim c) deg)) V = Inr C \<and>
    cell el = c \<and> degree el = deg \<and> FiniteElement.nodes el = ns \<and> basis_coefs el = C \<and>
    FiniteElement.node_count el = length ns"
  using assms unfolding FiniteElement_init_def
  by (auto split: sum.splits)




lemma basis_indices_interval_1: "basis_indices (Suc 0) 1 = [(0, 0), (1, 0)]"
  by (simp add: basis_indices_def upto.simps)






section \<open>The Vandermonde matrix at finite points\<close>

lemma np_hstack_map:
  "np_hstack (length pts) (map (\<lambda>b. map (f b) pts) bs) = map (\<lambda>p. map (\<lambda>b. f b p) bs) pts"
  by (rule nth_equalityI) (simp_all add: np_hstack_def)

lemma column_values_finite:
  assumes "[] \<notin> set pts"
  shows "column (map (map Fin) pts) False i 0 j
         = map (\<lambda>p. Fin (hd p ^ nat (i - j) * last p ^ nat j)) pts"
proof -
  have "np_multiply (np_power (hd (map Fin p)) (nat (max (i - j) 0)))
                    (np_power (last (map Fin p)) (nat (max j 0)))
        = Fin (hd p ^ nat (i - j) * last p ^ nat j)" if "p \<in> set pts" for p
  proof -
    from that assms have "p \<noteq> []" by auto
    then have "hd (map Fin p) = Fin (hd p)" "last (map Fin p) = Fin (last p)"
      by (simp_all add: hd_map last_map)
    moreover have "nat (max (i - j) 0) = nat (i - j)" "nat (max j 0) = nat j" by auto
    ultimately show ?thesis by (simp add: np_power_Fin)
  qed
  then show ?thesis by (simp add: column_def)
qed

lemma vandermonde_values_finite:
  assumes "0 \<le> deg" "[] \<notin> set pts"
  shows "vandermonde_values c deg (map (map Fin) pts)
         = Inr (map (map Fin) (map (monomials (cell_dim c) deg) pts))"
proof -
  have ne: "[] \<notin> set (map (map Fin) pts)" using assms(2) by auto
  have cols: "map (\<lambda>(i, j). column (map (map Fin) pts) False i 0 j) (basis_indices (cell_dim c) deg)
        = map (\<lambda>b. map (\<lambda>p. Fin (hd p ^ nat (fst b - snd b) * last p ^ nat (snd b))) pts)
              (basis_indices (cell_dim c) deg)"
    by (rule map_cong) (auto simp: column_values_finite[OF assms(2)])
  have "vandermonde_values c deg (map (map Fin) pts)
        = Inr (map (\<lambda>p. map (\<lambda>b. Fin (hd p ^ nat (fst b - snd b) * last p ^ nat (snd b)))
              (basis_indices (cell_dim c) deg)) pts)"
    unfolding vandermonde_values_def cols length_map np_hstack_map
    using assms(1) ne by simp
  also have "map (\<lambda>p. map (\<lambda>b. Fin (hd p ^ nat (fst b - snd b) * last p ^ nat (snd b)))
              (basis_indices (cell_dim c) deg)) pts
             = map (map Fin) (map (monomials (cell_dim c) deg) pts)"
    by (simp add: monomials_def case_prod_beta comp_def)
  finally show ?thesis .
qed

lemma vandermonde_values_Inr:
  "vandermonde_values c deg ns = Inr V \<Longrightarrow> 0 \<le> deg \<and> [] \<notin> set ns"
  by (auto simp: vandermonde_values_def split: if_splits)

lemma length_monomials: "length (monomials d deg p) = length (basis_indices d deg)"
  by (simp add: monomials_def)

lemma polynomial_sum:
  assumes "length coefs = length (basis_indices d deg)"
  shows "polynomial d deg coefs p
         = (\<Sum>b<length (basis_indices d deg). coefs ! b * monomials d deg p ! b)"
proof -
  let ?n = "length (basis_indices d deg)"
  have "map2 (*) coefs (monomials d deg p) = map (\<lambda>b. coefs ! b * monomials d deg p ! b) [0..<?n]"
    using assms by (intro nth_equalityI) (simp_all add: length_monomials)
  then show ?thesis
    by (simp add: polynomial_def interv_sum_list_conv_sum_set_nat atLeast0LessThan)
qed

lemma np_linalg_inv_Inr:
  assumes "np_linalg_inv m (map (map Fin) M) = Inr C"
  shows "\<exists>Cr. square m M \<and> real_inverse M = Some Cr \<and> C = map (map Fin) Cr"
  using assms unfolding np_linalg_inv_def
  by (auto simp: Let_def finite_matrix_lift square_def split: if_splits option.splits)

lemma FiniteElement_init_finite:
  assumes "FiniteElement_init c deg (map (map Fin) ns) en = Inr el"
  shows "\<exists>Cr. 0 \<le> deg \<and> [] \<notin> set ns \<and>
     square (length (basis_indices (cell_dim c) deg)) (map (monomials (cell_dim c) deg) ns) \<and>
     real_inverse (map (monomials (cell_dim c) deg) ns) = Some Cr \<and>
     cell el = c \<and> degree el = deg \<and> FiniteElement.nodes el = map (map Fin) ns \<and>
     basis_coefs el = map (map Fin) Cr \<and> length ns = length (basis_indices (cell_dim c) deg)"
proof -
  from FiniteElement_init_Inr[OF assms] obtain V C where
    V: "vandermonde_values c deg (map (map Fin) ns) = Inr V"
    and inv: "np_linalg_inv (length (basis_indices (cell_dim c) deg)) V = Inr C"
    and el: "cell el = c" "degree el = deg" "FiniteElement.nodes el = map (map Fin) ns"
      "basis_coefs el = C"
    by blast
  from vandermonde_values_Inr[OF V] have d: "0 \<le> deg" "[] \<notin> set ns" by auto
  from V vandermonde_values_finite[OF d, of c]
  have VM: "V = map (map Fin) (map (monomials (cell_dim c) deg) ns)" by simp
  from np_linalg_inv_Inr[OF inv[unfolded VM]] obtain Cr where
    "square (length (basis_indices (cell_dim c) deg)) (map (monomials (cell_dim c) deg) ns)"
    "real_inverse (map (monomials (cell_dim c) deg) ns) = Some Cr" "C = map (map Fin) Cr"
    by blast
  then show ?thesis using d el by (auto simp: square_def)
qed

section \<open>Interpolation\<close>


lemma left_inverse_apply:
  fixes M Cr :: "real list list"
  assumes li: "\<And>i j. i < n \<Longrightarrow> j < n \<Longrightarrow> (\<Sum>k<n. Cr ! i ! k * M ! k ! j) = (if i = j then 1 else 0)"
    and k: "k < n"
  shows "(\<Sum>j<n. Cr ! k ! j * (\<Sum>b<n. c b * M ! j ! b)) = c k"
proof -
  have "(\<Sum>j<n. Cr ! k ! j * (\<Sum>b<n. c b * M ! j ! b))
        = (\<Sum>j<n. \<Sum>b<n. c b * (Cr ! k ! j * M ! j ! b))"
    by (simp add: sum_distrib_left mult.left_commute)
  also have "\<dots> = (\<Sum>b<n. \<Sum>j<n. c b * (Cr ! k ! j * M ! j ! b))"
    by (rule sum.swap)
  also have "\<dots> = (\<Sum>b<n. c b * (\<Sum>j<n. Cr ! k ! j * M ! j ! b))"
    by (simp add: sum_distrib_left)
  also have "\<dots> = (\<Sum>b<n. c b * (if k = b then 1 else 0))"
    by (rule sum.cong) (simp_all add: li k)
  also have "\<dots> = (\<Sum>b<n. if b = k then c b else 0)"
    by (rule sum.cong) auto
  also have "\<dots> = c k" using k by (simp add: sum.delta')
  finally show ?thesis .
qed

lemma constructed_unisolvent:
  assumes "FiniteElement_init c deg (map (map Fin) ns) en = Inr el"
  shows "unisolvent (cell_dim c) deg ns"
proof -
  let ?d = "cell_dim c"
  let ?n = "length (basis_indices ?d deg)"
  let ?M = "map (monomials ?d deg) ns"
  from FiniteElement_init_finite[OF assms] obtain Cr where
    sq: "square ?n ?M" and ri: "real_inverse ?M = Some Cr" and len: "length ns = ?n"
    by blast
  note snd = real_inverse_sound[OF sq ri]
  show ?thesis
    unfolding unisolvent_def
  proof (intro allI impI, elim conjE)
    fix a b :: "real list"
    assume la: "length a = ?n" and lb: "length b = ?n"
      and eq: "\<forall>p\<in>set ns. polynomial ?d deg a p = polynomial ?d deg b p"
    have val: "(\<Sum>i<?n. x ! i * ?M ! j ! i) = polynomial ?d deg x (ns ! j)"
      if "length x = ?n" "j < ?n" for x j
      using that len by (simp add: polynomial_sum)
    show "a = b"
    proof (rule nth_equalityI)
      show "length a = length b" using la lb by simp
    next
      fix k assume "k < length a"
      then have k: "k < ?n" using la by simp
      have "a ! k = (\<Sum>j<?n. Cr ! k ! j * (\<Sum>i<?n. a ! i * ?M ! j ! i))"
        by (rule left_inverse_apply[OF snd(2) k, symmetric])
      also have "\<dots> = (\<Sum>j<?n. Cr ! k ! j * (\<Sum>i<?n. b ! i * ?M ! j ! i))"
      proof (rule sum.cong)
        fix j assume "j \<in> {..<?n}"
        then have j: "j < ?n" by simp
        then have "ns ! j \<in> set ns" using len by simp
        then show "Cr ! k ! j * (\<Sum>i<?n. a ! i * ?M ! j ! i)
                   = Cr ! k ! j * (\<Sum>i<?n. b ! i * ?M ! j ! i)"
          using eq val[OF la j] val[OF lb j] by simp
      qed simp
      also have "\<dots> = b ! k" by (rule left_inverse_apply[OF snd(2) k])
      finally show "a ! k = b ! k" .
    qed
  qed
qed






section \<open>Singular node sets\<close>







section \<open>The gradient of the Vandermonde matrix\<close>

lemma np_swapaxes_map:
  "np_swapaxes (length pts) (map (\<lambda>b. map (f b) pts) bs) = map (\<lambda>p. map (\<lambda>b. f b p) bs) pts"
  by (rule nth_equalityI) (simp_all add: np_swapaxes_def)

lemma column_grad_finite:
  assumes "[] \<notin> set pts"
  shows "map (np_multiply (np_of_int ((i - j) * (1 - k) + j * k)))
           (column (map (map Fin) pts) True i k j)
         = map (\<lambda>p. Fin (grad_entry p i j k)) pts"
proof -
  have "np_multiply (np_of_int ((i - j) * (1 - k) + j * k))
          (np_multiply (np_power (hd (map Fin p)) (nat (max (i - j - (1 - k)) 0)))
                       (np_power (last (map Fin p)) (nat (max (j - k) 0))))
        = Fin (grad_entry p i j k)" if "p \<in> set pts" for p
  proof -
    from that assms have "p \<noteq> []" by auto
    then have "hd (map Fin p) = Fin (hd p)" "last (map Fin p) = Fin (last p)"
      by (simp_all add: hd_map last_map)
    then show ?thesis by (simp add: np_power_Fin np_of_int_def grad_entry_def)
  qed
  then show ?thesis by (simp add: column_def)
qed

lemma vandermonde_grad_finite:
  assumes "0 \<le> deg" "0 < cell_dim c" "[] \<notin> set pts"
  shows "vandermonde_grad c deg (map (map Fin) pts)
         = Inr (map (\<lambda>p. map (\<lambda>b. map (\<lambda>k. Fin (grad_entry p (fst b) (snd b) k))
                                   [0..int (cell_dim c) - 1])
                          (basis_indices (cell_dim c) deg)) pts)"
proof -
  have ne: "[] \<notin> set (map (map Fin) pts)" using assms(3) by auto
  have inner: "np_hstack (length pts)
          (map (\<lambda>k. map (np_multiply (np_of_int ((i - j) * (1 - k) + j * k)))
                       (column (map (map Fin) pts) True i k j))
               [0..int (cell_dim c) - 1])
        = map (\<lambda>p. map (\<lambda>k. Fin (grad_entry p i j k)) [0..int (cell_dim c) - 1]) pts" for i j
    unfolding column_grad_finite[OF assms(3)] by (rule np_hstack_map)
  have cp: "(\<lambda>(i, j). map (\<lambda>p. map (\<lambda>k. Fin (grad_entry p i j k))
                                   [0..int (cell_dim c) - 1]) pts)
            = (\<lambda>b. map (\<lambda>p. map (\<lambda>k. Fin (grad_entry p (fst b) (snd b) k))
                                   [0..int (cell_dim c) - 1]) pts)"
    by (rule ext) (simp only: case_prod_beta)
  have "vandermonde_grad c deg (map (map Fin) pts)
        = Inr (np_swapaxes (length pts)
            (map (\<lambda>b. map (\<lambda>p. map (\<lambda>k. Fin (grad_entry p (fst b) (snd b) k))
                                   [0..int (cell_dim c) - 1]) pts)
                 (basis_indices (cell_dim c) deg)))"
    unfolding vandermonde_grad_def length_map inner cp
    using assms(1,2) ne by simp
  also have "np_swapaxes (length pts)
            (map (\<lambda>b. map (\<lambda>p. map (\<lambda>k. Fin (grad_entry p (fst b) (snd b) k))
                                   [0..int (cell_dim c) - 1]) pts)
                 (basis_indices (cell_dim c) deg))
      = map (\<lambda>p. map (\<lambda>b. map (\<lambda>k. Fin (grad_entry p (fst b) (snd b) k))
                                   [0..int (cell_dim c) - 1])
                          (basis_indices (cell_dim c) deg)) pts"
    by (rule np_swapaxes_map)
  finally show ?thesis .
qed










lemma monomials_exponents:
  "monomials d deg p = map (\<lambda>(a, e). hd p ^ a * last p ^ e) (monomial_exponents d deg)"
  by (simp add: monomials_def monomial_exponents_def case_prod_beta comp_def)




section \<open>The vector element: values\<close>

lemma all_finite_lift: "all_finite (map (map Fin) A)"
  by (auto simp: all_finite_def is_finite_def)

lemma is_finite_Fin: "is_finite x \<Longrightarrow> \<exists>r. x = Fin r"
  by (cases x) (auto simp: is_finite_def)

lemma unit_e_nth:
  "cp < 2 \<Longrightarrow> unit_e k ! cp = (if cp = k mod 2 then 1 else 0)"
  by (cases cp) (auto simp: unit_e_def less_Suc_eq numeral_2_eq_2 split: if_splits; presburger)+

lemma length_unit_e: "length (unit_e k) = 2"
  by (simp add: unit_e_def)

lemma np_multiply_unit:
  assumes "is_finite x" "cp < 2"
  shows "np_multiply x (np_of_int (unit_e k ! cp)) = (if cp = k mod 2 then x else Fin 0)"
proof -
  from is_finite_Fin[OF assms(1)] obtain r where "x = Fin r" by blast
  then show ?thesis using assms(2) by (simp add: unit_e_nth np_of_int_def)
qed

lemma ncols_square: "square n C \<Longrightarrow> ncols C = n"
  by (cases C) (auto simp: square_def ncols_def)

lemma tabulate_values_finite:
  assumes init: "FiniteElement_init c deg (map (map Fin) ns) en = Inr el"
    and pts: "[] \<notin> set pts"
  shows "\<exists>phi. tabulate_values el (map (map Fin) pts) = Inr (map (map Fin) phi) \<and>
           length phi = length pts \<and> (\<forall>r\<in>set phi. length r = length ns) \<and>
           ncols (basis_coefs el) = length ns \<and> cell el = c"
proof -
  let ?d = "cell_dim c"
  let ?n = "length (basis_indices ?d deg)"
  let ?M = "map (monomials ?d deg) ns"
  let ?P = "map (monomials ?d deg) pts"
  from FiniteElement_init_finite[OF init] obtain Cr where
    deg: "0 \<le> deg" and sq: "square ?n ?M" and ri: "real_inverse ?M = Some Cr"
    and el: "cell el = c" "degree el = deg" "basis_coefs el = map (map Fin) Cr"
    and len: "length ns = ?n"
    by blast
  note snd = real_inverse_sound[OF sq ri]
  have nc: "ncols Cr = ?n" by (rule ncols_square[OF snd(1)])
  have "np_matmul (map (map Fin) ?P) (map (map Fin) Cr)
        = Inr (map (map Fin) (real_matmul ?P Cr))"
    using snd(1) nc by (intro np_matmul_lift) (simp_all add: length_monomials square_def)
  then have "tabulate_values el (map (map Fin) pts) = Inr (map (map Fin) (real_matmul ?P Cr))"
    using vandermonde_values_finite[OF deg pts, of c] el by (simp add: tabulate_values_def)
  moreover have "length (real_matmul ?P Cr) = length pts" by (simp add: real_matmul_def)
  moreover have "\<forall>r\<in>set (real_matmul ?P Cr). length r = length ns"
    using nc len by (auto simp: real_matmul_def)
  moreover have "ncols (basis_coefs el) = length ns"
    using el nc len by (simp add: ncols_lift)
  ultimately show ?thesis using el(1) by blast
qed

lemma vector_tabulate_values_entries:
  assumes tab: "tabulate_values (finite_element vel) points = Inr phi"
    and fin: "all_finite phi"
    and rows: "\<forall>r\<in>set phi. length r = n"
    and nc: "ncols (basis_coefs (finite_element vel)) = n"
    and d: "cell_dim (cell (finite_element vel)) = 2"
  shows "\<exists>vphi. vector_tabulate_values vel points = Inr vphi \<and> length vphi = length phi \<and>
     (\<forall>p<length phi. length (vphi ! p) = 2 * n \<and>
        (\<forall>k<2 * n. length (vphi ! p ! k) = 2 \<and>
           (\<forall>cp<2. vphi ! p ! k ! cp
                = (if cp = k mod 2 then phi ! p ! (k div 2) else Fin 0))))"
proof -
  let ?v = "map (\<lambda>row. map (\<lambda>i. map (\<lambda>ej. np_multiply (row ! (i div 2)) (np_of_int ej))
                                      (unit_e i)) [0..<2 * n]) phi"
  have noerr: "\<not> (\<exists>i\<in>set [0..<2 * n]. n \<le> i div 2)" by auto
  have v: "vector_tabulate_values vel points = Inr ?v"
    using tab nc d noerr by (simp add: vector_tabulate_values_def Let_def)
  have ent: "?v ! p ! k ! cp = (if cp = k mod 2 then phi ! p ! (k div 2) else Fin 0)"
    if p: "p < length phi" and k: "k < 2 * n" and cp: "cp < 2" for p k cp
  proof -
    have "phi ! p \<in> set phi" using p by simp
    then have "length (phi ! p) = n" "\<forall>x\<in>set (phi ! p). is_finite x"
      using rows fin by (auto simp: all_finite_def)
    moreover have "k div 2 < n" using k by auto
    ultimately have f: "is_finite (phi ! p ! (k div 2))" by simp
    have "?v ! p ! k ! cp = np_multiply (phi ! p ! (k div 2)) (np_of_int (unit_e k ! cp))"
      using p k cp by (simp add: length_unit_e)
    then show ?thesis using np_multiply_unit[OF f cp] by simp
  qed
  show ?thesis
  proof (intro exI[of _ ?v] conjI allI impI)
    show "vector_tabulate_values vel points = Inr ?v" by (rule v)
    show "length ?v = length phi" by simp
  next
    fix p assume "p < length phi"
    then show "length (?v ! p) = 2 * n" by simp
  next
    fix p k assume "p < length phi" "k < 2 * n"
    then show "length (?v ! p ! k) = 2" by (simp add: length_unit_e)
  next
    fix p k :: nat and cp :: nat assume "p < length phi" "k < 2 * n" "cp < 2"
    then show "?v ! p ! k ! cp = (if cp = k mod 2 then phi ! p ! (k div 2) else Fin 0)"
      by (rule ent)
  qed
qed

lemma VectorFiniteElement_init_Inr:
  "VectorFiniteElement_init fe = Inr vel \<Longrightarrow> finite_element vel = fe"
  by (auto simp: VectorFiniteElement_init_def Let_def split: if_splits sum.splits)

section \<open>The vector element: gradients\<close>

lemma np_einsum_lift:
  fixes T :: "real list list list" and B :: "real list list"
  assumes T: "\<forall>t\<in>set T. length t = length B \<and> (\<forall>r\<in>set t. length r = d)"
    and B: "\<forall>r\<in>set B. length r = ncols B"
  shows "np_einsum_ijk_jl d (map (map (map Fin)) T) (map (map Fin) B)
         = Inr (map (map (map Fin))
                 (map (\<lambda>t. map (\<lambda>l. map (\<lambda>k. \<Sum>j<length B. t ! j ! k * B ! j ! l) [0..<d])
                                  [0..<ncols B]) T))"
proof -
  have ent: "np_sum (map (\<lambda>j. np_multiply (map (map Fin) t ! j ! k) (map (map Fin) B ! j ! l))
                       [0..<length B])
             = Fin (\<Sum>j<length B. t ! j ! k * B ! j ! l)"
    if t: "t \<in> set T" and l: "l < ncols B" and k: "k < d" for t l k
  proof -
    have "map (\<lambda>j. np_multiply (map (map Fin) t ! j ! k) (map (map Fin) B ! j ! l)) [0..<length B]
          = map (\<lambda>j. Fin (t ! j ! k * B ! j ! l)) [0..<length B]"
      using T B t l k by (intro map_cong) auto
    then show ?thesis by (simp only: np_sum_Fin_upt)
  qed
  have "map (\<lambda>t. map (\<lambda>l. map (\<lambda>k. np_sum (map (\<lambda>j. np_multiply (t ! j ! k)
                                                   (map (map Fin) B ! j ! l)) [0..<length B]))
                              [0..<d]) [0..<ncols B]) (map (map (map Fin)) T)
        = map (map (map Fin))
            (map (\<lambda>t. map (\<lambda>l. map (\<lambda>k. \<Sum>j<length B. t ! j ! k * B ! j ! l) [0..<d])
                             [0..<ncols B]) T)"
    by (simp add: ent cong: map_cong)
  moreover have "\<not> (\<exists>t\<in>set (map (map (map Fin)) T). length t \<noteq> length (map (map Fin) B))"
    using T by auto
  ultimately show ?thesis
    by (simp add: np_einsum_ijk_jl_def ncols_lift del: map_map)
qed

lemma tabulate_grad_finite:
  assumes init: "FiniteElement_init c deg (map (map Fin) ns) en = Inr el"
    and d: "0 < cell_dim c" and pts: "[] \<notin> set pts"
  shows "\<exists>phi. tabulate_grad el (map (map Fin) pts) = Inr (map (map (map Fin)) phi) \<and>
           length phi = length pts \<and>
           (\<forall>t\<in>set phi. length t = length ns \<and> (\<forall>g\<in>set t. length g = cell_dim c))"
proof -
  let ?d = "cell_dim c"
  let ?n = "length (basis_indices ?d deg)"
  let ?M = "map (monomials ?d deg) ns"
  let ?T = "map (\<lambda>p. map (\<lambda>b. map (\<lambda>k. grad_entry p (fst b) (snd b) k) [0..int ?d - 1])
                          (basis_indices ?d deg)) pts"
  let ?G = "\<lambda>B. map (\<lambda>t. map (\<lambda>l. map (\<lambda>k. \<Sum>j<length B. t ! j ! k * B ! j ! l) [0..<?d])
                                  [0..<ncols B]) ?T"
  from FiniteElement_init_finite[OF init] obtain Cr where
    deg: "0 \<le> deg" and sq: "square ?n ?M" and ri: "real_inverse ?M = Some Cr"
    and el: "cell el = c" "degree el = deg" "basis_coefs el = map (map Fin) Cr"
    and len: "length ns = ?n"
    by blast
  note snd = real_inverse_sound[OF sq ri]
  have nc: "ncols Cr = ?n" by (rule ncols_square[OF snd(1)])
  have lk: "length [0..int ?d - 1] = ?d" using d by simp
  have vg: "vandermonde_grad c deg (map (map Fin) pts) = Inr (map (map (map Fin)) ?T)"
    unfolding vandermonde_grad_finite[OF deg d pts] by (simp add: comp_def)
  have "np_einsum_ijk_jl ?d (map (map (map Fin)) ?T) (map (map Fin) Cr)
        = Inr (map (map (map Fin)) (?G Cr))"
  proof (rule np_einsum_lift)
    show "\<forall>t\<in>set ?T. length t = length Cr \<and> (\<forall>r\<in>set t. length r = ?d)"
      using snd(1) lk by (auto simp: square_def)
    show "\<forall>r\<in>set Cr. length r = ncols Cr" using snd(1) nc by (simp add: square_def)
  qed
  then have "tabulate_grad el (map (map Fin) pts) = Inr (map (map (map Fin)) (?G Cr))"
    using vg el by (simp add: tabulate_grad_def)
  moreover have "length (?G Cr) = length pts" by simp
  moreover have "\<forall>t\<in>set (?G Cr). length t = length ns \<and> (\<forall>g\<in>set t. length g = ?d)"
    using nc len by auto
  ultimately show ?thesis by blast
qed

lemma vector_tabulate_grad_entries:
  assumes tab: "tabulate_grad (finite_element vel) points = Inr phi"
    and fin: "all_finite3 phi"
    and rows: "\<forall>t\<in>set phi. length t = n \<and> (\<forall>g\<in>set t. length g = 2)"
    and nc: "ncols (basis_coefs (finite_element vel)) = n"
    and d: "cell_dim (cell (finite_element vel)) = 2"
  shows "\<exists>vphi. vector_tabulate_grad vel points = Inr vphi \<and> length vphi = length phi \<and>
     (\<forall>p<length phi. length (vphi ! p) = 2 * n \<and>
        (\<forall>k<2 * n. length (vphi ! p ! k) = 2 \<and>
           (\<forall>dir<2. length (vphi ! p ! k ! dir) = 2 \<and>
              (\<forall>cp<2. vphi ! p ! k ! dir ! cp
                   = (if cp = k mod 2 then phi ! p ! (k div 2) ! dir else Fin 0)))))"
proof -
  let ?v = "map (\<lambda>row. map (\<lambda>i. map (\<lambda>g. map (\<lambda>ej. np_multiply g (np_of_int ej)) (unit_e i))
                                      (row ! (i div 2))) [0..<2 * n]) phi"
  have noerr: "\<not> (\<exists>i\<in>set [0..<2 * n]. n \<le> i div 2)" by auto
  have v: "vector_tabulate_grad vel points = Inr ?v"
    using tab nc d noerr by (simp add: vector_tabulate_grad_def Let_def)
  have shape: "length (phi ! p ! (k div 2)) = 2 \<and>
               (\<forall>dir<2. is_finite (phi ! p ! (k div 2) ! dir))"
    if p: "p < length phi" and k: "k < 2 * n" for p k
  proof -
    have m: "phi ! p \<in> set phi" using p by simp
    then have lp: "length (phi ! p) = n" using rows by blast
    have "k div 2 < n" using k by auto
    then have g: "phi ! p ! (k div 2) \<in> set (phi ! p)" using lp by simp
    then have "length (phi ! p ! (k div 2)) = 2" using rows m by blast
    moreover have "\<forall>x\<in>set (phi ! p ! (k div 2)). is_finite x"
      using fin m g by (auto simp: all_finite3_def all_finite_def)
    ultimately show ?thesis by simp
  qed
  have ent: "?v ! p ! k ! dir ! cp
             = (if cp = k mod 2 then phi ! p ! (k div 2) ! dir else Fin 0)"
    if p: "p < length phi" and k: "k < 2 * n" and dir: "dir < 2" and cp: "cp < 2"
    for p k dir cp
  proof -
    from shape[OF p k] dir have l: "length (phi ! p ! (k div 2)) = 2"
      and f: "is_finite (phi ! p ! (k div 2) ! dir)" by auto
    have "?v ! p ! k ! dir ! cp
          = np_multiply (phi ! p ! (k div 2) ! dir) (np_of_int (unit_e k ! cp))"
      using p k dir cp l by (simp add: length_unit_e)
    then show ?thesis using np_multiply_unit[OF f cp] by simp
  qed
  show ?thesis
  proof (intro exI[of _ ?v] conjI allI impI)
    show "vector_tabulate_grad vel points = Inr ?v" by (rule v)
    show "length ?v = length phi" by simp
  next
    fix p assume "p < length phi"
    then show "length (?v ! p) = 2 * n" by simp
  next
    fix p k assume "p < length phi" "k < 2 * n"
    then show "length (?v ! p ! k) = 2" using shape by simp
  next
    fix p k dir :: nat assume "p < length phi" "k < 2 * n" "dir < 2"
    then show "length (?v ! p ! k ! dir) = 2" using shape by (simp add: length_unit_e)
  next
    fix p k dir cp :: nat assume "p < length phi" "k < 2 * n" "dir < 2" "cp < 2"
    then show "?v ! p ! k ! dir ! cp
               = (if cp = k mod 2 then phi ! p ! (k div 2) ! dir else Fin 0)"
      by (rule ent)
  qed
qed

section \<open>Elements of degree 1 on the reference cells\<close>

lemma ReferenceInterval_simps:
  "cell_dim ReferenceInterval = 1" "entity_counts ReferenceInterval = [2, 1]"
  "point_in_entity ReferenceInterval [Fin x] e
     = (e = (0, 0) \<and> x = 0 \<or> e = (0, 1) \<and> x = 1 \<or> e = (1, 0) \<and> 0 \<le> x \<and> x \<le> 1)"
  by (simp_all add: ReferenceInterval_def)

lemma ReferenceTriangle_simps:
  "cell_dim ReferenceTriangle = 2" "entity_counts ReferenceTriangle = [3, 3, 1]"
  "point_in_entity ReferenceTriangle [Fin x, Fin y] e
     = (e = (0, 0) \<and> x = 0 \<and> y = 0 \<or> e = (0, 1) \<and> x = 1 \<and> y = 0 \<or>
        e = (0, 2) \<and> x = 0 \<and> y = 1 \<or>
        0 \<le> x \<and> 0 \<le> y \<and> x + y \<le> 1 \<and>
          (e = (1, 0) \<and> x + y = 1 \<or> e = (1, 1) \<and> x = 0 \<or> e = (1, 2) \<and> y = 0 \<or> e = (2, 0)))"
  by (simp_all add: ReferenceTriangle_def)

lemma lagrange_points_interval_1: "lagrange_points ReferenceInterval 1 = [[Fin 0], [Fin 1]]"
  by (simp add: lagrange_points_def ReferenceInterval_simps upto.simps np_true_divide_def)

lemma lagrange_points_triangle_1:
  "lagrange_points ReferenceTriangle 1 = [[Fin 0, Fin 0], [Fin 1, Fin 0], [Fin 0, Fin 1]]"
  by (simp add: lagrange_points_def ReferenceTriangle_simps upto.simps np_true_divide_def
      numeral_2_eq_2)

lemma upt_3: "[0..<3] = [0, 1, 2]" and upt_2: "[0..<2] = [0, 1]"
  by (simp_all add: numeral_3_eq_3 numeral_2_eq_2 upt_rec)

lemma entity_nodes_interval_1:
  "build_entity_nodes ReferenceInterval [[Fin 0], [Fin 1]] added
   = Inr [(0, [(0, added 0), (1, added 1)]), (1, [(0, [])])]"
  by (simp add: build_entity_nodes_def ReferenceInterval_simps first_entity_def entities_def
      upt_2 upt_rec)

lemma entity_nodes_triangle_1:
  "build_entity_nodes ReferenceTriangle [[Fin 0, Fin 0], [Fin 1, Fin 0], [Fin 0, Fin 1]] added
   = Inr [(0, [(0, added 0), (1, added 1), (2, added 2)]), (1, [(0, []), (1, []), (2, [])]),
          (2, [(0, [])])]"
  by (simp add: build_entity_nodes_def ReferenceTriangle_simps first_entity_def entities_def
      upt_3 upt_2 upt_rec numeral_2_eq_2)

lemma basis_indices_triangle_1: "basis_indices 2 1 = [(0, 0), (1, 0), (1, 1)]"
  by (simp add: basis_indices_def upto.simps)

lemma FiniteElement_P1_interval:
  "FiniteElement_init ReferenceInterval 1 (map (map Fin) [[0], [1]])
     (Some [(0, [(0, [0]), (1, [1])]), (1, [(0, [])])]) = Inr P1_interval"
  by (simp add: FiniteElement_init_def count_nodes_per_entity_def ReferenceInterval_simps
      upt_2 vandermonde_values_def basis_indices_interval_1 column_def np_hstack_def
      np_linalg_inv_def finite_matrix_def real_inverse_def unit_row_def row_scale_def
      eliminate_def row_sub_def P1_interval_def)

lemma FiniteElement_P1_triangle:
  "FiniteElement_init ReferenceTriangle 1 (map (map Fin) [[0, 0], [1, 0], [0, 1]])
     (Some [(0, [(0, [0]), (1, [1]), (2, [2])]), (1, [(0, []), (1, []), (2, [])]),
            (2, [(0, [])])]) = Inr P1_triangle"
  by (simp add: FiniteElement_init_def count_nodes_per_entity_def ReferenceTriangle_simps
      upt_3 vandermonde_values_def basis_indices_triangle_1 column_def np_hstack_def
      np_linalg_inv_def finite_matrix_def real_inverse_def unit_row_def row_scale_def
      eliminate_def row_sub_def P1_triangle_def)

lemma LagrangeElement_P1_interval: "LagrangeElement_init ReferenceInterval 1 = Inr P1_interval"
  using FiniteElement_P1_interval
  by (simp add: LagrangeElement_init_def lagrange_points_interval_1 entity_nodes_interval_1)

lemma LagrangeElement_P1_triangle: "LagrangeElement_init ReferenceTriangle 1 = Inr P1_triangle"
  using FiniteElement_P1_triangle
  by (simp add: LagrangeElement_init_def lagrange_points_triangle_1 entity_nodes_triangle_1)

lemma P1_interval_simps:
  "cell P1_interval = ReferenceInterval" "degree P1_interval = 1"
  "FiniteElement.nodes P1_interval = [[Fin 0], [Fin 1]]"
  "basis_coefs P1_interval = [[Fin 1, Fin 0], [Fin (- 1), Fin 1]]"
  by (simp_all add: P1_interval_def)

lemma P1_triangle_simps:
  "cell P1_triangle = ReferenceTriangle" "degree P1_triangle = 1"
  "FiniteElement.nodes P1_triangle = [[Fin 0, Fin 0], [Fin 1, Fin 0], [Fin 0, Fin 1]]"
  "basis_coefs P1_triangle
   = [[Fin 1, Fin 0, Fin 0], [Fin (- 1), Fin 1, Fin 0], [Fin (- 1), Fin 0, Fin 1]]"
  by (simp_all add: P1_triangle_def)

lemma VectorFiniteElement_P1_interval: "VectorFiniteElement_init P1_interval = Inr VP1_interval"
  by (simp add: VectorFiniteElement_init_def P1_interval_simps ReferenceInterval_simps
      entity_nodes_interval_1 count_nodes_per_entity_def upt_2 unit_e_def VP1_interval_def)

lemma VectorFiniteElement_P1_triangle: "VectorFiniteElement_init P1_triangle = Inr VP1_triangle"
  by (simp add: VectorFiniteElement_init_def P1_triangle_simps ReferenceTriangle_simps
      entity_nodes_triangle_1 count_nodes_per_entity_def upt_3 unit_e_def VP1_triangle_def
      numeral_2_eq_2 upt_rec)

section \<open>The layout of the vector tabulation\<close>

lemma all_finite3_lift: "all_finite3 (map (map (map Fin)) T)"
  by (auto simp: all_finite3_def all_finite_def is_finite_def)

text \<open>
  On a cell of dimension 2 the tabulation of the vector element in value mode has the
  layout of C9: the scalar basis function \<open>k div 2\<close> in the component \<open>k mod 2\<close> and
  exactly 0 in the other component.
\<close>

lemma vector_tabulate_values_layout:
  assumes init: "FiniteElement_init c deg (map (map Fin) ns) en = Inr fe"
    and vinit: "VectorFiniteElement_init fe = Inr vel"
    and d: "cell_dim c = 2" and pts: "[] \<notin> set pts"
  shows "\<exists>phi vphi. tabulate fe (map (map Fin) pts) False = Inr (Rank2 phi) \<and>
      vector_tabulate vel (map (map Fin) pts) False = Inr (Rank3 vphi) \<and>
      length vphi = length pts \<and>
      (\<forall>p<length pts. length (vphi ! p) = 2 * FiniteElement.node_count fe \<and>
         (\<forall>k<2 * FiniteElement.node_count fe. length (vphi ! p ! k) = 2 \<and>
            (\<forall>cp<2. vphi ! p ! k ! cp
                 = (if cp = k mod 2 then phi ! p ! (k div 2) else Fin 0))))"
proof -
  have fe: "finite_element vel = fe" by (rule VectorFiniteElement_init_Inr[OF vinit])
  from FiniteElement_init_Inr[OF init] have n: "FiniteElement.node_count fe = length ns"
    by auto
  from tabulate_values_finite[OF init pts] obtain phi where
    tab: "tabulate_values fe (map (map Fin) pts) = Inr (map (map Fin) phi)"
    and len: "length phi = length pts" and rows: "\<forall>r\<in>set phi. length r = length ns"
    and nc: "ncols (basis_coefs fe) = length ns" and c: "cell fe = c"
    by blast
  have "\<exists>vphi. vector_tabulate_values vel (map (map Fin) pts) = Inr vphi \<and>
     length vphi = length (map (map Fin) phi) \<and>
     (\<forall>p<length (map (map Fin) phi). length (vphi ! p) = 2 * length ns \<and>
        (\<forall>k<2 * length ns. length (vphi ! p ! k) = 2 \<and>
           (\<forall>cp<2. vphi ! p ! k ! cp
                = (if cp = k mod 2 then map (map Fin) phi ! p ! (k div 2) else Fin 0))))"
    using tab rows nc c d by (intro vector_tabulate_values_entries) (simp_all add: fe all_finite_lift)
  then obtain vphi where
    v: "vector_tabulate_values vel (map (map Fin) pts) = Inr vphi"
    and lv: "length vphi = length pts"
    and ent: "\<forall>p<length pts. length (vphi ! p) = 2 * length ns \<and>
        (\<forall>k<2 * length ns. length (vphi ! p ! k) = 2 \<and>
           (\<forall>cp<2. vphi ! p ! k ! cp
                = (if cp = k mod 2 then map (map Fin) phi ! p ! (k div 2) else Fin 0)))"
    using len by auto
  show ?thesis
  proof (intro exI[of _ "map (map Fin) phi"] exI[of _ vphi] conjI)
    show "tabulate fe (map (map Fin) pts) False = Inr (Rank2 (map (map Fin) phi))"
      using tab by (simp add: tabulate_def)
    show "vector_tabulate vel (map (map Fin) pts) False = Inr (Rank3 vphi)"
      using v by (simp add: vector_tabulate_def)
    show "length vphi = length pts" by (rule lv)
    show "\<forall>p<length pts. length (vphi ! p) = 2 * FiniteElement.node_count fe \<and>
         (\<forall>k<2 * FiniteElement.node_count fe. length (vphi ! p ! k) = 2 \<and>
            (\<forall>cp<2. vphi ! p ! k ! cp
                 = (if cp = k mod 2 then map (map Fin) phi ! p ! (k div 2) else Fin 0)))"
      unfolding n by (rule ent)
  qed
qed

text \<open>
  C8, as the code has it, on a cell of dimension 2. For a vector element over a
  constructed scalar element and points with finite coordinates, the tabulation in
  gradient mode has the shape (points, 2 * nodes, 2, 2). The first of the two last axes
  is the direction of the gradient and the last axis the component of the vector:
  entry \<open>[p][k][dir][cp]\<close> is the derivative in direction \<open>dir\<close> of the scalar basis
  function \<open>k div 2\<close> when \<open>cp = k mod 2\<close>, and exactly 0 for the other component.
\<close>

theorem vector_tabulate_grad_layout:
  assumes init: "FiniteElement_init c deg (map (map Fin) ns) en = Inr fe"
    and vinit: "VectorFiniteElement_init fe = Inr vel"
    and d: "cell_dim c = 2" and pts: "[] \<notin> set pts"
  shows "\<exists>phi vphi. tabulate fe (map (map Fin) pts) True = Inr (Rank3 phi) \<and>
      vector_tabulate vel (map (map Fin) pts) True = Inr (Rank4 vphi) \<and>
      length vphi = length pts \<and>
      (\<forall>p<length pts. length (vphi ! p) = 2 * FiniteElement.node_count fe \<and>
         (\<forall>k<2 * FiniteElement.node_count fe. length (vphi ! p ! k) = 2 \<and>
            (\<forall>dir<2. length (vphi ! p ! k ! dir) = 2 \<and>
               (\<forall>cp<2. vphi ! p ! k ! dir ! cp
                    = (if cp = k mod 2 then phi ! p ! (k div 2) ! dir else Fin 0)))))"
proof -
  have fe: "finite_element vel = fe" by (rule VectorFiniteElement_init_Inr[OF vinit])
  from FiniteElement_init_Inr[OF init] have n: "FiniteElement.node_count fe = length ns"
    by auto
  from tabulate_values_finite[OF init pts]
  have nc: "ncols (basis_coefs fe) = length ns" and c: "cell fe = c" by auto
  have pos: "0 < cell_dim c" using d by simp
  from tabulate_grad_finite[OF init pos pts] obtain phi where
    tab: "tabulate_grad fe (map (map Fin) pts) = Inr (map (map (map Fin)) phi)"
    and len: "length phi = length pts"
    and rows: "\<forall>t\<in>set phi. length t = length ns \<and> (\<forall>g\<in>set t. length g = cell_dim c)"
    by blast
  let ?phi = "map (map (map Fin)) phi"
  have rows': "\<forall>t\<in>set ?phi. length t = length ns \<and> (\<forall>g\<in>set t. length g = 2)"
    using rows d by auto
  have "\<exists>vphi. vector_tabulate_grad vel (map (map Fin) pts) = Inr vphi \<and>
     length vphi = length ?phi \<and>
     (\<forall>p<length ?phi. length (vphi ! p) = 2 * length ns \<and>
        (\<forall>k<2 * length ns. length (vphi ! p ! k) = 2 \<and>
           (\<forall>dir<2. length (vphi ! p ! k ! dir) = 2 \<and>
              (\<forall>cp<2. vphi ! p ! k ! dir ! cp
                   = (if cp = k mod 2 then ?phi ! p ! (k div 2) ! dir else Fin 0)))))"
    using tab nc c d rows'
    by (intro vector_tabulate_grad_entries) (simp_all only: fe all_finite3_lift)
  then obtain vphi where
    v: "vector_tabulate_grad vel (map (map Fin) pts) = Inr vphi"
    and lv: "length vphi = length ?phi"
    and ent: "\<forall>p<length ?phi. length (vphi ! p) = 2 * length ns \<and>
        (\<forall>k<2 * length ns. length (vphi ! p ! k) = 2 \<and>
           (\<forall>dir<2. length (vphi ! p ! k ! dir) = 2 \<and>
              (\<forall>cp<2. vphi ! p ! k ! dir ! cp
                   = (if cp = k mod 2 then ?phi ! p ! (k div 2) ! dir else Fin 0))))"
    by blast
  have lphi: "length ?phi = length pts" using len by simp
  show ?thesis
  proof (intro exI[of _ ?phi] exI[of _ vphi] conjI)
    show "tabulate fe (map (map Fin) pts) True = Inr (Rank3 ?phi)"
      using tab by (simp add: tabulate_def)
    show "vector_tabulate vel (map (map Fin) pts) True = Inr (Rank4 vphi)"
      using v by (simp add: vector_tabulate_def)
    show "length vphi = length pts" using lv lphi by simp
    show "\<forall>p<length pts. length (vphi ! p) = 2 * FiniteElement.node_count fe \<and>
         (\<forall>k<2 * FiniteElement.node_count fe. length (vphi ! p ! k) = 2 \<and>
            (\<forall>dir<2. length (vphi ! p ! k ! dir) = 2 \<and>
               (\<forall>cp<2. vphi ! p ! k ! dir ! cp
                    = (if cp = k mod 2 then ?phi ! p ! (k div 2) ! dir else Fin 0))))"
      unfolding n lphi[symmetric] by (rule ent)
  qed
qed

section \<open>The vector tabulation on the reference cells\<close>

lemma VP1_simps:
  "finite_element VP1_interval = P1_interval" "finite_element VP1_triangle = P1_triangle"
  by (simp_all add: VP1_interval_def VP1_triangle_def)

lemma tabulate_values_P1_interval:
  "tabulate_values P1_interval [[Fin (1 / 2)]] = Inr [[Fin (1 / 2), Fin (1 / 2)]]"
  by (simp add: tabulate_values_def P1_interval_simps ReferenceInterval_simps
      vandermonde_values_def basis_indices_interval_1 column_def np_hstack_def np_matmul_def
      ncols_def upt_2)

lemma tabulate_grad_P1_triangle:
  "tabulate_grad P1_triangle [[Fin (1 / 3), Fin (1 / 3)]]
   = Inr [[[Fin (- 1), Fin (- 1)], [Fin 1, Fin 0], [Fin 0, Fin 1]]]"
  by (simp add: tabulate_grad_def P1_triangle_simps ReferenceTriangle_simps
      vandermonde_grad_def basis_indices_triangle_1 column_def np_hstack_def np_swapaxes_def
      np_einsum_ijk_jl_def np_of_int_def upto.simps ncols_def upt_3 upt_2)

text \<open>
  C9 on the interval, where \<open>dim = 1\<close>: the vector element over the Lagrange element of
  degree 1, tabulated at the point \<open>1/2\<close>. Both scalar basis functions are \<open>1/2\<close> there.
  With \<open>k mod dim = 0\<close> and \<open>k div dim = k\<close> the claim asks for the entries
  \<open>[0][1][0] = 1/2\<close> and \<open>[0][1][1] = 0\<close>; the code returns \<open>0\<close> and \<open>1/2\<close>, since it
  works with \<open>k mod 2\<close> and \<open>k div 2\<close> whatever the dimension.
\<close>

theorem vector_tabulate_interval_values:
  "LagrangeElement_init ReferenceInterval 1 = Inr P1_interval \<and>
   VectorFiniteElement_init P1_interval = Inr VP1_interval \<and>
   tabulate P1_interval [[Fin (1 / 2)]] False = Inr (Rank2 [[Fin (1 / 2), Fin (1 / 2)]]) \<and>
   vector_tabulate VP1_interval [[Fin (1 / 2)]] False
   = Inr (Rank3 [[[Fin (1 / 2), Fin 0], [Fin 0, Fin (1 / 2)]]])"
  by (simp add: LagrangeElement_P1_interval VectorFiniteElement_P1_interval tabulate_def
      vector_tabulate_def vector_tabulate_values_def VP1_simps tabulate_values_P1_interval
      P1_interval_simps ReferenceInterval_simps ncols_def upt_2 unit_e_def np_of_int_def)

lemma upt_6: "[0..<6] = [0, 1, 2, 3, 4, 5]"
  by (simp add: upt_rec)

text \<open>
  The claim that the first of the two last axes is the component of the vector, with
  only the row \<open>k mod dim\<close> non-zero, fails on the triangle at the centroid: the
  gradient of the scalar basis function 0 is \<open>(-1, -1)\<close> and the array of the vector
  basis function 0 is \<open>[[-1, 0], [-1, 0]]\<close>, whose row 1 is not zero and whose row 0 is
  not the scalar gradient.
\<close>

theorem vector_tabulate_grad_counterexample:
  "LagrangeElement_init ReferenceTriangle 1 = Inr P1_triangle \<and>
   VectorFiniteElement_init P1_triangle = Inr VP1_triangle \<and>
   tabulate P1_triangle [[Fin (1 / 3), Fin (1 / 3)]] True
   = Inr (Rank3 [[[Fin (- 1), Fin (- 1)], [Fin 1, Fin 0], [Fin 0, Fin 1]]]) \<and>
   vector_tabulate VP1_triangle [[Fin (1 / 3), Fin (1 / 3)]] True
   = Inr (Rank4 [[[[Fin (- 1), Fin 0], [Fin (- 1), Fin 0]],
                  [[Fin 0, Fin (- 1)], [Fin 0, Fin (- 1)]],
                  [[Fin 1, Fin 0], [Fin 0, Fin 0]],
                  [[Fin 0, Fin 1], [Fin 0, Fin 0]],
                  [[Fin 0, Fin 0], [Fin 1, Fin 0]],
                  [[Fin 0, Fin 0], [Fin 0, Fin 1]]]])"
  by (simp add: LagrangeElement_P1_triangle VectorFiniteElement_P1_triangle tabulate_def
      vector_tabulate_def vector_tabulate_grad_def VP1_simps tabulate_grad_P1_triangle
      P1_triangle_simps ReferenceTriangle_simps ncols_def upt_6 unit_e_def np_of_int_def)
    auto

theorem vector_tabulate_grad_layout_witness:
  "FiniteElement_init ReferenceTriangle 1 (map (map Fin) [[0, 0], [1, 0], [0, 1]])
     (Some [(0, [(0, [0]), (1, [1]), (2, [2])]), (1, [(0, []), (1, []), (2, [])]),
            (2, [(0, [])])]) = Inr P1_triangle \<and>
   VectorFiniteElement_init P1_triangle = Inr VP1_triangle \<and>
   cell_dim ReferenceTriangle = 2 \<and> [] \<notin> set [[1 / 3, 1 / 3 :: real]] \<and>
   (\<exists>phi vphi. tabulate P1_triangle (map (map Fin) [[1 / 3, 1 / 3]]) True = Inr (Rank3 phi) \<and>
      vector_tabulate VP1_triangle (map (map Fin) [[1 / 3, 1 / 3]]) True = Inr (Rank4 vphi) \<and>
      length vphi = length [[1 / 3, 1 / 3 :: real]] \<and>
      (\<forall>p<length [[1 / 3, 1 / 3 :: real]].
         length (vphi ! p) = 2 * FiniteElement.node_count P1_triangle \<and>
         (\<forall>k<2 * FiniteElement.node_count P1_triangle. length (vphi ! p ! k) = 2 \<and>
            (\<forall>dir<2. length (vphi ! p ! k ! dir) = 2 \<and>
               (\<forall>cp<2. vphi ! p ! k ! dir ! cp
                    = (if cp = k mod 2 then phi ! p ! (k div 2) ! dir else Fin 0))))))"
proof -
  have d: "cell_dim ReferenceTriangle = 2" by (simp add: ReferenceTriangle_simps)
  have p: "[] \<notin> set [[1 / 3, 1 / 3 :: real]]" by simp
  show ?thesis
    by (intro conjI FiniteElement_P1_triangle VectorFiniteElement_P1_triangle d p
        vector_tabulate_grad_layout[OF FiniteElement_P1_triangle
          VectorFiniteElement_P1_triangle d p])
qed

section \<open>Completeness of the elimination\<close>

text \<open>
  When no pivot is left in column \<open>c\<close> the matrix is singular: a non-zero vector is
  mapped to zero. So the elimination fails on singular matrices only.
\<close>

lemma gj_stuck:
  assumes inv: "gj_inv n M c solved pending"
    and fp: "find_pivot c pending = None" and c: "c < n"
    and sq: "square n M"
  shows "\<exists>x. (\<exists>j<n. x j \<noteq> 0) \<and> (\<forall>i<n. (\<Sum>j<n. M ! i ! j * x j) = 0)"
proof -
  define x where "x j = (if j < c then - fst (solved ! j) ! c else if j = c then 1 else 0)" for j
  define y where "y i = (\<Sum>j<n. M ! i ! j * x j)" for i
  from inv have ls: "length solved = c"
    and ok: "\<And>r. r \<in> set solved \<union> set pending \<Longrightarrow> row_ok n M r"
    and idm: "\<And>k j. k < c \<Longrightarrow> j < c \<Longrightarrow> fst (solved ! k) ! j = (if j = k then 1 else 0)"
    and zer: "\<And>r j. r \<in> set pending \<Longrightarrow> j < c \<Longrightarrow> fst r ! j = 0"
    and spn: "\<And>m. m < n \<Longrightarrow> row_vec n (unit_row n m)
                \<in> row_span ((\<lambda>r. row_vec n (snd r)) ` (set solved \<union> set pending))"
    unfolding gj_inv_def by auto
  have piv0: "\<And>r. r \<in> set pending \<Longrightarrow> fst r ! c = 0"
    using find_pivot_None[OF fp] by blast
  have restrict: "(\<Sum>j<n. f j * x j) = (\<Sum>j<c. f j * x j) + f c" for f :: "nat \<Rightarrow> real"
  proof -
    have "(\<Sum>j<n. f j * x j) = (\<Sum>j<Suc c. f j * x j)"
      using c by (intro sum.mono_neutral_right) (auto simp: x_def)
    then show ?thesis by (simp add: x_def)
  qed
  have ax: "(\<Sum>j<n. fst r ! j * x j) = 0" if r: "r \<in> set solved \<union> set pending" for r
  proof (cases "r \<in> set pending")
    case True
    have "(\<Sum>j<c. fst r ! j * x j) = 0"
      by (rule sum.neutral) (simp add: zer[OF True])
    then show ?thesis using restrict[of "\<lambda>j. fst r ! j"] piv0[OF True] by simp
  next
    case False
    then have "r \<in> set solved" using r by simp
    then obtain k where k: "k < c" "r = solved ! k"
      using ls by (auto simp: in_set_conv_nth)
    have "(\<Sum>j<c. fst r ! j * x j) = (\<Sum>j<c. if j = k then - fst (solved ! k) ! c else 0)"
      by (rule sum.cong) (auto simp: k idm x_def)
    also have "\<dots> = - fst (solved ! k) ! c" using k by simp
    finally show ?thesis using restrict[of "\<lambda>j. fst r ! j"] k by simp
  qed
  have by0: "(\<Sum>i<n. snd r ! i * y i) = 0" if r: "r \<in> set solved \<union> set pending" for r
  proof -
    have "(\<Sum>i<n. snd r ! i * y i) = (\<Sum>i<n. \<Sum>j<n. snd r ! i * M ! i ! j * x j)"
      by (simp add: y_def sum_distrib_left mult.assoc)
    also have "\<dots> = (\<Sum>j<n. \<Sum>i<n. snd r ! i * M ! i ! j * x j)" by (rule sum.swap)
    also have "\<dots> = (\<Sum>j<n. (\<Sum>i<n. snd r ! i * M ! i ! j) * x j)"
      by (simp add: sum_distrib_right)
    also have "\<dots> = (\<Sum>j<n. fst r ! j * x j)"
      using ok[OF r] by (intro sum.cong) (auto simp: row_ok_def)
    finally show ?thesis using ax[OF r] by simp
  qed
  have span0: "(\<Sum>i<n. v i * y i) = 0"
    if "v \<in> row_span ((\<lambda>r. row_vec n (snd r)) ` (set solved \<union> set pending))" for v
    using that
  proof (induction rule: row_span.induct)
    case zero
    then show ?case by simp
  next
    case (base v)
    then obtain r where r: "r \<in> set solved \<union> set pending" "v = row_vec n (snd r)" by auto
    have "(\<Sum>i<n. v i * y i) = (\<Sum>i<n. snd r ! i * y i)"
      by (rule sum.cong) (auto simp: r row_vec_def)
    then show ?case using by0[OF r(1)] by simp
  next
    case (add u v)
    then show ?case by (simp add: distrib_right sum.distrib)
  next
    case (scale v k)
    have "(\<Sum>i<n. k * v i * y i) = k * (\<Sum>i<n. v i * y i)"
      by (simp add: sum_distrib_left mult.assoc)
    then show ?case using scale by simp
  qed
  have "y m = 0" if m: "m < n" for m
  proof -
    have "(\<Sum>i<n. row_vec n (unit_row n m) i * y i) = (\<Sum>i<n. if i = m then y i else 0)"
      by (rule sum.cong) (auto simp: row_vec_def unit_row_nth)
    also have "\<dots> = y m" using m by simp
    finally show ?thesis using span0[OF spn[OF m]] by simp
  qed
  moreover have "x c \<noteq> 0" by (simp add: x_def)
  ultimately show ?thesis using c unfolding y_def by blast
qed

lemma gj_loop_None:
  assumes "gj_inv n M c solved pending" "square n M"
    and "gauss_jordan [c..<n] solved pending = None"
  shows "\<exists>x. (\<exists>j<n. x j \<noteq> 0) \<and> (\<forall>i<n. (\<Sum>j<n. M ! i ! j * x j) = 0)"
  using assms
proof (induction "n - c" arbitrary: c solved pending)
  case 0
  then have "c + length pending = n" by (simp add: gj_inv_def)
  with 0 have "c = n" by auto
  with 0 show ?case by simp
next
  case (Suc k)
  then have c: "c < n" by simp
  then have up: "[c..<n] = c # [Suc c..<n]" by (simp add: upt_conv_Cons)
  show ?case
  proof (cases "find_pivot c pending")
    case None
    then show ?thesis by (rule gj_stuck[OF Suc.prems(1) _ c Suc.prems(2)])
  next
    case (Some pr)
    then obtain p rest where fp: "find_pivot c pending = Some (p, rest)" by (cases pr) auto
    have rec: "gauss_jordan [Suc c..<n]
                (map (eliminate c (row_scale (1 / fst p ! c) p)) solved @ [row_scale (1 / fst p ! c) p])
                (map (eliminate c (row_scale (1 / fst p ! c) p)) rest) = None"
      using Suc.prems(3) unfolding up by (simp add: fp Let_def)
    have "k = n - Suc c" using Suc.hyps(2) by simp
    from Suc.hyps(1)[OF this gj_step[OF Suc.prems(1) fp refl] Suc.prems(2) rec] show ?thesis .
  qed
qed

lemma real_inverse_complete:
  assumes "square n M" "real_inverse M = None"
  shows "\<exists>x. (\<exists>j<n. x j \<noteq> 0) \<and> (\<forall>i<n. (\<Sum>j<n. M ! i ! j * x j) = 0)"
proof -
  have n: "length M = n" using assms(1) by (simp add: square_def)
  have inv: "gj_inv n M 0 [] (zip M (map (unit_row n) [0..<n]))"
    using assms(1) by (intro gj_init) (auto simp: square_def)
  have "gauss_jordan [0..<n] [] (zip M (map (unit_row n) [0..<n])) = None"
    using assms(2) n by (simp add: real_inverse_def)
  from gj_loop_None[OF inv assms(1) this] show ?thesis .
qed

section \<open>Unisolvent nodes\<close>

text \<open>
  With as many nodes as basis functions, and no entity map, the construction succeeds
  exactly when the nodes are unisolvent.
\<close>

lemma unisolvent_constructed:
  assumes deg: "0 \<le> deg" and pts: "[] \<notin> set ns"
    and len: "length ns = length (basis_indices (cell_dim c) deg)"
    and uni: "unisolvent (cell_dim c) deg ns"
  shows "\<exists>el. FiniteElement_init c deg (map (map Fin) ns) None = Inr el"
proof -
  let ?d = "cell_dim c"
  let ?n = "length (basis_indices ?d deg)"
  let ?M = "map (monomials ?d deg) ns"
  have sq: "square ?n ?M" using len by (simp add: square_def length_monomials)
  have "real_inverse ?M \<noteq> None"
  proof
    assume "real_inverse ?M = None"
    from real_inverse_complete[OF sq this] obtain x j where
      j: "j < ?n" "x j \<noteq> 0" and ker: "\<forall>i<?n. (\<Sum>b<?n. ?M ! i ! b * x b) = 0"
      by blast
    let ?a = "map x [0..<?n]"
    let ?z = "replicate ?n (0::real)"
    have "polynomial ?d deg ?a p = polynomial ?d deg ?z p" if "p \<in> set ns" for p
    proof -
      from that obtain i where i: "i < ?n" "p = ns ! i"
        using len by (auto simp: in_set_conv_nth)
      have "polynomial ?d deg ?a p = (\<Sum>b<?n. ?M ! i ! b * x b)"
        using i len by (simp add: polynomial_sum mult.commute)
      moreover have "polynomial ?d deg ?z p = 0" by (simp add: polynomial_sum)
      ultimately show ?thesis using ker i by simp
    qed
    then have "?a = ?z" using uni unfolding unisolvent_def by simp
    then have "?a ! j = ?z ! j" by simp
    then show False using j by simp
  qed
  then obtain Cr where ri: "real_inverse ?M = Some Cr" by blast
  have V: "vandermonde_values c deg (map (map Fin) ns) = Inr (map (map Fin) ?M)"
    by (rule vandermonde_values_finite[OF deg pts])
  have inv: "np_linalg_inv ?n (map (map Fin) ?M) = Inr (map (map Fin) Cr)"
    using sq ri by (simp add: np_linalg_inv_def finite_matrix_lift square_def del: map_map)
  show ?thesis
    by (simp add: FiniteElement_init_def V inv del: map_map)
qed

lemma construction_iff_unisolvent:
  assumes "0 \<le> deg" "[] \<notin> set ns" "length ns = length (basis_indices (cell_dim c) deg)"
  shows "(\<exists>el. FiniteElement_init c deg (map (map Fin) ns) None = Inr el)
         \<longleftrightarrow> unisolvent (cell_dim c) deg ns"
  using unisolvent_constructed[OF assms] constructed_unisolvent by blast

end
